theory Spec2Isabelle
  imports Complex_Main
begin

section \<open>The evaluation loop of a tuned lens: \<open>white_box/scripts/eval_loop.py\<close>\<close>

text \<open>
  The script is glue around collaborators that live elsewhere: the transformer model, the
  lens, the residual-stream capture, the statistics accumulators, the data loader, the
  progress display and the serializer. The embedding below follows \<open>eval_loop\<close> line by
  line. Tensors are nested lists of numbers; the numbers stand in for the accelerator's
  floating-point values, and no statement below is about the value an arithmetic
  operation returns, only about which tensor is computed from which, in what shape, and
  where it is stored. Exceptions are values of
  \<open>exn + 'a\<close>, and the side effects (directories, saved files, forward hooks, the total of
  the progress display) are fields of an explicit \<open>world\<close> that every effectful step takes
  and returns.
\<close>

subsection \<open>Exceptions, paths, tensors\<close>

datatype exn =
    KeyError string
  | IndexError
  | ValueError
  | FileExistsError
  | FileNotFoundError
  | NotADirectoryError
  | Raised string

text \<open>A path is the list of its components; \<open>p / c\<close> appends the component \<open>c\<close>.\<close>

type_synonym path = "string list"

type_synonym tensor3 = "real list list list"

text \<open>A tensor of rank one, two or three, as the accumulators and the saved metrics see it.\<close>

datatype tensor = T1 "real list" | T2 "real list list" | T3 "real list list list"

text \<open>A residual stream: the captured (layer name, tensor) pairs in layer order.\<close>

type_synonym 'a residual_stream = "(string \<times> 'a) list"

text \<open>A batch maps field names to integer tensors of shape (batch, sequence).\<close>

type_synonym batch = "string \<rightharpoonup> int list list"

text \<open>\<open>batch_output = defaultdict(dict)\<close>: metric name to (layer name to tensor).\<close>

type_synonym batch_output = "string \<rightharpoonup> (string \<rightharpoonup> tensor)"

subsection \<open>Rendering the rank and the batch counter: \<open>f"rank_{local_rank}"\<close>\<close>

definition digit :: "nat \<Rightarrow> char" where
  "digit d = ''0123456789'' ! d"

function str_nat :: "nat \<Rightarrow> string" where
  "str_nat n = (if n < 10 then [digit n] else str_nat (n div 10) @ [digit (n mod 10)])"
  by pat_completeness auto
termination
  by (relation "measure id") auto

declare str_nat.simps [simp del]

subsection \<open>Arguments, collaborators and the world\<close>

text \<open>
  The fields of the \<open>Namespace\<close> the loop reads. \<open>args.limit\<close> and \<open>args.output\<close> may
  be \<open>None\<close>.
\<close>

record args =
  args_seed :: int
  args_per_gpu_batch_size :: nat
  args_limit :: "int option"
  args_output :: "path option"
  args_lens :: path

text \<open>
  The collaborators \<open>eval_loop\<close> is handed or imports, taken as parameters:
  \<^item> \<open>dist_rank\<close>: \<open>Some r\<close> when a process group is initialised and \<open>dist.get_rank()\<close> is
    \<open>r\<close>, \<open>None\<close> otherwise;
  \<^item> \<open>model\<close>: the forward pass on a batch, giving the logits and the residual stream the
    capture recorded, or raising;
  \<^item> \<open>model_layers\<close>: the number of layers the capture instruments;
  \<^item> \<open>lens_len\<close>, \<open>lens_call\<close>, \<open>to_logits\<close>: \<open>len(lens)\<close>, \<open>lens(h, idx=i)\<close> and
    \<open>lens.to_logits(h)\<close>;
  \<^item> \<open>residuals\<close>: the \<open>residuals()\<close> operation of the captured stream;
  \<^item> \<open>residual_stats_new\<close>, \<open>rs_update\<close>, \<open>logit_stats_new\<close>, \<open>ls_update\<close>: the constructors
    and \<open>update\<close> methods of \<open>ResidualStats\<close> and \<open>LogitStats\<close>;
  \<^item> \<open>save_error\<close>: the exception \<open>th.save\<close> raises at a path, if any;
  \<^item> \<open>pbar_n\<close>: the value \<open>pbar.n\<close> reads while the body of iteration \<open>k\<close> (counted from
    0) runs.
\<close>

record ('rs, 'ls) collab =
  dist_rank :: "nat option"
  model :: "batch \<Rightarrow> exn + tensor3 \<times> tensor3 residual_stream"
  model_layers :: nat
  lens_len :: nat
  lens_call :: "tensor3 \<Rightarrow> nat \<Rightarrow> exn + tensor3"
  to_logits :: "tensor3 \<Rightarrow> exn + tensor3"
  residuals :: "tensor residual_stream \<Rightarrow> tensor residual_stream"
  residual_stats_new :: 'rs
  rs_update :: "'rs \<Rightarrow> tensor residual_stream \<Rightarrow> 'rs"
  logit_stats_new :: 'ls
  ls_update :: "'ls \<Rightarrow> tensor3 \<Rightarrow> bool \<Rightarrow> 'ls"
  save_error :: "path \<Rightarrow> exn option"
  pbar_n :: "nat \<Rightarrow> nat"

text \<open>What \<open>th.save\<close> is given: a batch's metrics or one of the accumulators.\<close>

datatype ('rs, 'ls) obj =
    BatchOutput batch_output
  | ResidualStatsObj 'rs
  | LogitStatsObj 'ls

datatype 'c node = Dir | File 'c

record ('rs, 'ls) world =
  fs :: "path \<rightharpoonup> ('rs, 'ls) obj node"
  saved :: "(path \<times> ('rs, 'ls) obj) list"
  hooks :: nat
  pbar_total :: "int option"

record ('rs, 'ls) accumulators =
  first_token_stats :: 'rs
  delta_stats :: 'rs
  stream_stats :: 'rs
  logit_stats :: 'ls

subsection \<open>\<open>Path.mkdir\<close>\<close>

text \<open>
  The empty path is the base every path is relative to; it always is a directory.
\<close>

definition lookup :: "(path \<rightharpoonup> 'c node) \<Rightarrow> path \<Rightarrow> 'c node option" where
  "lookup f p = (if p = [] then Some Dir else f p)"

definition is_dir :: "(path \<rightharpoonup> 'c node) \<Rightarrow> path \<Rightarrow> bool" where
  "is_dir f p = (lookup f p = Some Dir)"

text \<open>\<open>os.mkdir\<close>: one level, fails when the path exists or its parent is no directory.\<close>

definition os_mkdir :: "(path \<rightharpoonup> 'c node) \<Rightarrow> path \<Rightarrow> exn + (path \<rightharpoonup> 'c node)" where
  "os_mkdir f p =
     (if lookup f p \<noteq> None then Inl FileExistsError
      else case lookup f (butlast p) of
             None \<Rightarrow> Inl FileNotFoundError
           | Some (File _) \<Rightarrow> Inl NotADirectoryError
           | Some Dir \<Rightarrow> Inr (f(p \<mapsto> Dir)))"

text \<open>
  \<open>Path.mkdir(parents, exist_ok)\<close> as pathlib writes it: try \<open>os.mkdir\<close>; on
  \<open>FileNotFoundError\<close> create the parent with \<open>parents=True, exist_ok=True\<close> and retry
  without \<open>parents\<close>; on any other \<open>OSError\<close> re-raise unless \<open>exist_ok\<close> holds and the
  path is a directory.
\<close>

function mkdir :: "(path \<rightharpoonup> 'c node) \<Rightarrow> path \<Rightarrow> bool \<Rightarrow> bool \<Rightarrow> exn + (path \<rightharpoonup> 'c node)" where
  "mkdir f p parents exist_ok =
     (case os_mkdir f p of
        Inr f' \<Rightarrow> Inr f'
      | Inl e \<Rightarrow>
          if e = FileNotFoundError then
            (if \<not> parents \<or> butlast p = p then Inl e
             else case mkdir f (butlast p) True True of
                    Inl e' \<Rightarrow> Inl e'
                  | Inr f1 \<Rightarrow> mkdir f1 p False exist_ok)
          else if \<not> exist_ok \<or> \<not> is_dir f p then Inl e
          else Inr f)"
  by pat_completeness auto
termination
proof (relation "measure (\<lambda>(f, p, parents, ok). 2 * length p + (if parents then 1 else 0))")
  show "wf (measure (\<lambda>(f, p, parents, ok). 2 * length p + (if parents then 1 else 0)))"
    by simp
next
  fix f :: "path \<rightharpoonup> 'c node" and p :: path and parents exist_ok :: bool and e :: exn
  assume "\<not> (\<not> parents \<or> butlast p = p)"
  then have "p \<noteq> []" by auto
  then have "length (butlast p) < length p" by simp
  then show "((f, butlast p, True, True), f, p, parents, exist_ok)
        \<in> measure (\<lambda>(f, p, parents, ok). 2 * length p + (if parents then 1 else 0))"
    by simp
next
  fix f f1 :: "path \<rightharpoonup> 'c node" and p :: path and parents exist_ok :: bool and e :: exn
  assume "\<not> (\<not> parents \<or> butlast p = p)"
  then show "((f1, p, False, exist_ok), f, p, parents, exist_ok)
        \<in> measure (\<lambda>(f, p, parents, ok). 2 * length p + (if parents then 1 else 0))"
    by simp
qed

declare mkdir.simps [simp del]

subsection \<open>Tensor operations\<close>

text \<open>
  The operations are written over \<open>real\<close>, the program's run in floating point: the
  definitions fix which expression each stored tensor is, not the rounded value it has,
  and bounds on such values are not stated over them.

  \<open>x.log_softmax(dim=-1)\<close> on one vector of logits, and on a rank-3 tensor.
\<close>

definition log_softmax :: "real list \<Rightarrow> real list" where
  "log_softmax x = map (\<lambda>v. v - ln (sum_list (map exp x))) x"

definition log_softmax3 :: "tensor3 \<Rightarrow> tensor3" where
  "log_softmax3 t = map (map log_softmax) t"

definition exp3 :: "tensor3 \<Rightarrow> tensor3" where
  "exp3 t = map (map (map exp)) t"

definition neg3 :: "tensor3 \<Rightarrow> tensor3" where
  "neg3 t = map (map (map uminus)) t"

text \<open>
  An element-wise operation on two rank-3 tensors needs equal shapes and raises otherwise
  (broadcasting of dimensions of size one is not modelled).
\<close>

definition shape3 :: "tensor3 \<Rightarrow> nat list list" where
  "shape3 t = map (map length) t"

definition binop3 :: "(real \<Rightarrow> real \<Rightarrow> real) \<Rightarrow> tensor3 \<Rightarrow> tensor3 \<Rightarrow> exn + tensor3" where
  "binop3 f a b =
     (if shape3 a = shape3 b then Inr (map2 (map2 (map2 f)) a b)
      else Inl (Raised ''size mismatch''))"

text \<open>\<open>th.sum(t, dim=-1)\<close>: the sum over the last (vocabulary) axis, kept per position.\<close>

definition sum_last :: "tensor3 \<Rightarrow> real list list" where
  "sum_last t = map (map sum_list) t"

text \<open>\<open>th.sum(-lps.exp() * lps, dim=-1)\<close>\<close>

definition entropy :: "tensor3 \<Rightarrow> tensor3 \<Rightarrow> exn + real list list" where
  "entropy probs lps =
     (case binop3 (*) (neg3 probs) lps of
        Inl e \<Rightarrow> Inl e
      | Inr m \<Rightarrow> Inr (sum_last m))"

text \<open>\<open>th.sum(final_probs * (final_lps - lens_lps), dim=-1)\<close>\<close>

definition kl_div :: "tensor3 \<Rightarrow> tensor3 \<Rightarrow> tensor3 \<Rightarrow> exn + real list list" where
  "kl_div final_probs final_lps lens_lps =
     (case binop3 (-) final_lps lens_lps of
        Inl e \<Rightarrow> Inl e
      | Inr d \<Rightarrow>
          (case binop3 (*) final_probs d of
             Inl e \<Rightarrow> Inl e
           | Inr m \<Rightarrow> Inr (sum_last m)))"

text \<open>
  \<open>th.nn.functional.cross_entropy(input, target, reduction="none")\<close> on an input of
  shape (N, C) and N class indices: the negated log-softmax of each row at its target,
  one loss per row; a target of \<open>-100\<close> (the default \<open>ignore_index\<close>) gives 0, any other
  target outside \<open>0..C-1\<close> raises, and so does a different number of rows and targets.
\<close>

definition cross_entropy :: "real list list \<Rightarrow> int list \<Rightarrow> exn + real list" where
  "cross_entropy inp target =
     (if length inp \<noteq> length target then Inl ValueError
      else if \<exists>(row, t) \<in> set (zip inp target).
                t \<noteq> - 100 \<and> \<not> (0 \<le> t \<and> t < int (length row))
           then Inl IndexError
      else Inr (map2 (\<lambda>row t. if t = - 100 then 0 else - (log_softmax row ! nat t))
                  inp target))"

text \<open>
  Modelled from the spec: \<open>maybe_shift_preds\<close> of \<open>white_box.utils\<close> is not part of the
  sources at hand. The spec has the log-probabilities "shifted by one position to align
  prediction with label": with the labels being the tokens from position 1 on, the
  prediction at position \<open>t\<close> meets the token at \<open>t + 1\<close>, so a shift of \<open>n\<close> drops the
  last \<open>n\<close> positions of every sequence.
\<close>

definition maybe_shift_preds :: "tensor3 \<Rightarrow> nat \<Rightarrow> tensor3" where
  "maybe_shift_preds x n = map (\<lambda>sequence. take (length sequence - n) sequence) x"

text \<open>\<open>x.flatten(0, 1)\<close> and \<open>labels.flatten()\<close> join the batch and the sequence axis.\<close>

definition flatten :: "'a list list \<Rightarrow> 'a list" where
  "flatten x = concat x"

text \<open>\<open>x[:, 0]\<close> raises on a sequence axis of size 0; \<open>x[:, 1:]\<close> never does.\<close>

definition select_first :: "tensor3 \<Rightarrow> exn + tensor" where
  "select_first x = (if [] \<in> set x then Inl IndexError else Inr (T2 (map hd x)))"

definition select_rest :: "tensor3 \<Rightarrow> exn + tensor" where
  "select_rest x = Inr (T3 (map (drop 1) x))"

text \<open>\<open>stream.map(f)\<close>: \<open>f\<close> on every tensor, names and order kept; the first raise wins.\<close>

fun stream_map :: "('a \<Rightarrow> exn + 'b) \<Rightarrow> 'a residual_stream \<Rightarrow> exn + 'b residual_stream" where
  "stream_map f [] = Inr []"
| "stream_map f ((name, x) # rest) =
     (case f x of
        Inl e \<Rightarrow> Inl e
      | Inr y \<Rightarrow>
          (case stream_map f rest of
             Inl e \<Rightarrow> Inl e
           | Inr ys \<Rightarrow> Inr ((name, y) # ys)))"

text \<open>\<open>batch_output[metric][name] = v\<close> on a \<open>defaultdict(dict)\<close>.\<close>

definition dd_set :: "batch_output \<Rightarrow> string \<Rightarrow> string \<Rightarrow> tensor \<Rightarrow> batch_output" where
  "dd_set bo metric name v =
     bo(metric \<mapsto> (case bo metric of None \<Rightarrow> Map.empty | Some d \<Rightarrow> d)(name \<mapsto> v))"

text \<open>\<open>batch_output[metric]\<close>: a missing metric reads as the empty \<open>dict\<close>.\<close>

definition dd_get :: "batch_output \<Rightarrow> string \<Rightarrow> (string \<rightharpoonup> tensor)" where
  "dd_get bo metric = (case bo metric of None \<Rightarrow> Map.empty | Some d \<Rightarrow> d)"

subsection \<open>The collaborators' effects\<close>

text \<open>\<open>th.save(x, p)\<close>: writes the file and records the write, or raises.\<close>

definition th_save ::
  "('rs, 'ls) collab \<Rightarrow> ('rs, 'ls) obj \<Rightarrow> path \<Rightarrow> ('rs, 'ls) world
     \<Rightarrow> (exn + unit) \<times> ('rs, 'ls) world" where
  "th_save env x p w =
     (case save_error env p of
        Some e \<Rightarrow> (Inl e, w)
      | None \<Rightarrow> (Inr (), w\<lparr>fs := (fs w)(p \<mapsto> File x), saved := saved w @ [(p, x)]\<rparr>))"

text \<open>
  Modelled from the spec: \<open>record_residual_stream\<close> of \<open>white_box\<close> is not part of the
  sources at hand. The spec has it as a scoped acquisition bound to the forward pass of
  one call, whose "release on scope exit must remove any forward-pass instrumentation
  regardless of whether the forward pass raised". Entering the scope registers one
  forward hook per layer, the body \<open>output = model(**batch)\<close> runs, and leaving the scope
  removes the hooks again whether the body returned or raised; the outcome of the body
  is passed on.
\<close>

definition record_residual_stream ::
  "('rs, 'ls) collab \<Rightarrow> batch \<Rightarrow> ('rs, 'ls) world
     \<Rightarrow> (exn + tensor3 \<times> tensor3 residual_stream) \<times> ('rs, 'ls) world" where
  "record_residual_stream env batch w =
     (let w1 = w\<lparr>hooks := hooks w + model_layers env\<rparr>;
          output = model env batch;
          w2 = w1\<lparr>hooks := hooks w1 - model_layers env\<rparr>
      in (output, w2))"

text \<open>\<open>send_to_device\<close> moves the tensors of a batch; their values stay.\<close>

definition send_to_device :: "batch \<Rightarrow> nat \<Rightarrow> batch" where
  "send_to_device batch device = batch"

subsection \<open>Sequencing steps that may raise\<close>

text \<open>A statement after one that raised does not run: the exception is the outcome.\<close>

definition and_then :: "exn + 'a \<Rightarrow> ('a \<Rightarrow> exn + 'b) \<Rightarrow> exn + 'b" where
  "and_then m f = (case m of Inl e \<Rightarrow> Inl e | Inr x \<Rightarrow> f x)"

subsection \<open>One layer of the paired iteration (lines 60 to 81)\<close>

definition layer_metrics ::
  "('rs, 'ls) collab \<Rightarrow> tensor3 \<Rightarrow> tensor3 \<Rightarrow> int list list \<Rightarrow> batch_output
     \<Rightarrow> nat \<times> string \<times> tensor3 \<Rightarrow> exn + batch_output" where
  "layer_metrics env final_lps final_probs labels bo = (\<lambda>(i, name, h).
     and_then (lens_call env h i) (\<lambda>lens_logits.
     let lens_lps = log_softmax3 lens_logits in
     and_then (to_logits env h) (\<lambda>baseline_logits.
     let baseline_lps = log_softmax3 baseline_logits in
     and_then (cross_entropy (flatten (maybe_shift_preds baseline_lps 1)) (flatten labels))
       (\<lambda>baseline_ce.
     let bo1 = dd_set bo ''baseline_ce'' name (T1 baseline_ce) in
     and_then (entropy (exp3 baseline_lps) baseline_lps) (\<lambda>baseline_entropy.
     let bo2 = dd_set bo1 ''baseline_entropy'' name (T2 baseline_entropy) in
     and_then (cross_entropy (flatten (maybe_shift_preds lens_lps 1)) (flatten labels))
       (\<lambda>lens_ce.
     let bo3 = dd_set bo2 ''lens_ce'' name (T1 lens_ce) in
     and_then (entropy (exp3 lens_lps) lens_lps) (\<lambda>lens_entropy.
     let bo4 = dd_set bo3 ''lens_entropy'' name (T2 lens_entropy) in
     and_then (kl_div final_probs final_lps lens_lps) (\<lambda>lens_kl.
     Inr (dd_set bo4 ''lens_kl'' name (T2 lens_kl))))))))))"

text \<open>\<open>for i, (name, h) in zip(range(len(lens)), stream.items())\<close>\<close>

fun layers_loop ::
  "('rs, 'ls) collab \<Rightarrow> tensor3 \<Rightarrow> tensor3 \<Rightarrow> int list list \<Rightarrow> batch_output
     \<Rightarrow> (nat \<times> string \<times> tensor3) list \<Rightarrow> exn + batch_output" where
  "layers_loop env final_lps final_probs labels bo [] = Inr bo"
| "layers_loop env final_lps final_probs labels bo (x # xs) =
     and_then (layer_metrics env final_lps final_probs labels bo x)
       (\<lambda>bo'. layers_loop env final_lps final_probs labels bo' xs)"

subsection \<open>The body of the batch loop (lines 49 to 99)\<close>

text \<open>
  What the body computes once the forward pass has returned: the metrics of the batch
  and the updated accumulators. Nothing here touches the world.
\<close>

definition batch_metrics ::
  "('rs, 'ls) collab \<Rightarrow> ('rs, 'ls) accumulators \<Rightarrow> batch \<Rightarrow> tensor3
     \<Rightarrow> tensor3 residual_stream \<Rightarrow> exn + batch_output \<times> ('rs, 'ls) accumulators" where
  "batch_metrics env acc batch logits stream =
     (let final_lps = log_softmax3 logits;
          final_probs = exp3 final_lps
      in
     and_then (case batch ''input_ids'' of
                 None \<Rightarrow> Inl (KeyError ''input_ids'')
               | Some input_ids \<Rightarrow> Inr (map (drop 1) input_ids)) (\<lambda>labels.
     and_then (layers_loop env final_lps final_probs labels Map.empty
                 (zip [0..<lens_len env] stream)) (\<lambda>bo.
     and_then (stream_map select_first stream) (\<lambda>first_tokens.
     and_then (stream_map select_rest stream) (\<lambda>rest.
     let acc1 = acc\<lparr>first_token_stats := rs_update env (first_token_stats acc) first_tokens\<rparr>;
         acc2 = acc1\<lparr>delta_stats := rs_update env (delta_stats acc1) (residuals env rest)\<rparr>;
         acc3 = acc2\<lparr>logit_stats := ls_update env (logit_stats acc2) final_lps True\<rparr>;
         acc4 = acc3\<lparr>stream_stats := rs_update env (stream_stats acc3) rest\<rparr>
     in
     and_then (cross_entropy (flatten (maybe_shift_preds final_lps 1)) (flatten labels))
       (\<lambda>final_ce.
     let bo1 = dd_set bo ''baseline_ce'' ''final'' (T1 final_ce) in
     and_then (entropy final_probs final_lps) (\<lambda>final_entropy.
     Inr (dd_set bo1 ''baseline_entropy'' ''final'' (T2 final_entropy), acc4))))))))"

text \<open>File names: \<open>f"rank_{local_rank}"\<close> and \<open>f"batch_{pbar.n}.pt"\<close>.\<close>

definition rank_name :: "nat \<Rightarrow> string" where
  "rank_name r = ''rank_'' @ str_nat r"

definition batch_name :: "nat \<Rightarrow> string" where
  "batch_name n = ''batch_'' @ str_nat n @ ''.pt''"

text \<open>
  The body for the batch of iteration \<open>k\<close>: the forward pass under the capture, the
  metrics, then \<open>th.save(batch_output, output_dir / f"batch_{pbar.n}.pt")\<close>.
\<close>

definition batch_body ::
  "('rs, 'ls) collab \<Rightarrow> nat \<Rightarrow> path \<Rightarrow> nat \<Rightarrow> ('rs, 'ls) accumulators \<Rightarrow> batch
     \<Rightarrow> ('rs, 'ls) world \<Rightarrow> (exn + ('rs, 'ls) accumulators) \<times> ('rs, 'ls) world" where
  "batch_body env rank output_dir k acc batch0 w =
     (let batch = send_to_device batch0 rank in
      case record_residual_stream env batch w of
        (Inl e, w1) \<Rightarrow> (Inl e, w1)
      | (Inr (logits, stream), w1) \<Rightarrow>
          (case batch_metrics env acc batch logits stream of
             Inl e \<Rightarrow> (Inl e, w1)
           | Inr (bo, acc') \<Rightarrow>
               (case th_save env (BatchOutput bo) (output_dir @ [batch_name (pbar_n env k)]) w1 of
                  (Inl e, w2) \<Rightarrow> (Inl e, w2)
                | (Inr u, w2) \<Rightarrow> (Inr acc', w2))))"

text \<open>\<open>for batch in pbar\<close>: the batches in order; \<open>k\<close> counts the iterations from 0.\<close>

fun batches_loop ::
  "('rs, 'ls) collab \<Rightarrow> nat \<Rightarrow> path \<Rightarrow> nat \<Rightarrow> ('rs, 'ls) accumulators \<Rightarrow> batch list
     \<Rightarrow> ('rs, 'ls) world \<Rightarrow> (exn + ('rs, 'ls) accumulators) \<times> ('rs, 'ls) world" where
  "batches_loop env rank output_dir k acc [] w = (Inr acc, w)"
| "batches_loop env rank output_dir k acc (batch # rest) w =
     (case batch_body env rank output_dir k acc batch w of
        (Inl e, w1) \<Rightarrow> (Inl e, w1)
      | (Inr acc', w1) \<Rightarrow> batches_loop env rank output_dir (Suc k) acc' rest w1)"

subsection \<open>\<open>eval_loop\<close>\<close>

text \<open>
  Lines 37 to 41. \<open>if args.limit:\<close> is Python truth: \<open>None\<close> and \<open>0\<close> are false.
  \<open>islice(dl, n)\<close> raises \<open>ValueError\<close> for a negative \<open>n\<close> and otherwise yields the first
  \<open>n\<close> batches. The result is the batch stream and \<open>total\<close>.
\<close>

definition truthy :: "int option \<Rightarrow> bool" where
  "truthy v = (case v of None \<Rightarrow> False | Some n \<Rightarrow> n \<noteq> 0)"

definition islice :: "'a list \<Rightarrow> int \<Rightarrow> exn + 'a list" where
  "islice xs n = (if n < 0 then Inl ValueError else Inr (take (nat n) xs))"

definition apply_limit :: "args \<Rightarrow> batch list \<Rightarrow> exn + batch list \<times> int" where
  "apply_limit args dl =
     (if truthy (args_limit args) then
        (case islice dl (the (args_limit args)) of
           Inl e \<Rightarrow> Inl e
         | Inr dl' \<Rightarrow> Inr (dl', the (args_limit args)))
      else Inr (dl, int (length dl)))"

text \<open>
  Lines 43 and 44. \<open>/\<close> binds tighter than \<open>or\<close>:
  \<open>root_dir = args.output or (args.lens / "eval")\<close>.
\<close>

definition root_dir :: "args \<Rightarrow> path" where
  "root_dir args = (case args_output args of Some out \<Rightarrow> out | None \<Rightarrow> args_lens args @ [''eval''])"

definition output_dir :: "args \<Rightarrow> nat \<Rightarrow> path" where
  "output_dir args rank = root_dir args @ [rank_name rank]"

text \<open>Lines 102 to 105: the four accumulators, in this order; the first raise ends it.\<close>

definition save_stats ::
  "('rs, 'ls) collab \<Rightarrow> path \<Rightarrow> ('rs, 'ls) accumulators \<Rightarrow> ('rs, 'ls) world
     \<Rightarrow> (exn + unit) \<times> ('rs, 'ls) world" where
  "save_stats env d acc w =
     (case th_save env (ResidualStatsObj (first_token_stats acc))
             (d @ [''first_token_stats.pt'']) w of
        (Inl e, w1) \<Rightarrow> (Inl e, w1)
      | (Inr u1, w1) \<Rightarrow>
     (case th_save env (ResidualStatsObj (delta_stats acc)) (d @ [''delta_stats.pt'']) w1 of
        (Inl e, w2) \<Rightarrow> (Inl e, w2)
      | (Inr u2, w2) \<Rightarrow>
     (case th_save env (ResidualStatsObj (stream_stats acc)) (d @ [''stream_stats.pt'']) w2 of
        (Inl e, w3) \<Rightarrow> (Inl e, w3)
      | (Inr u3, w3) \<Rightarrow>
     th_save env (LogitStatsObj (logit_stats acc)) (d @ [''logit_stats.pt'']) w3)))"

text \<open>Line 24: \<open>local_rank = dist.get_rank() if dist.is_initialized() else 0\<close>.\<close>

definition local_rank :: "('rs, 'ls) collab \<Rightarrow> nat" where
  "local_rank env = (case dist_rank env of Some r \<Rightarrow> r | None \<Rightarrow> 0)"

text \<open>Lines 32 to 35: the four accumulators as constructed.\<close>

definition new_accumulators :: "('rs, 'ls) collab \<Rightarrow> ('rs, 'ls) accumulators" where
  "new_accumulators env =
     \<lparr>first_token_stats = residual_stats_new env,
      delta_stats = residual_stats_new env,
      stream_stats = residual_stats_new env,
      logit_stats = logit_stats_new env\<rparr>"

text \<open>
  \<open>dl\<close> is the data loader over the shuffled data, as the list of its batches;
  \<open>len(dl)\<close> is its length. The steps in the order of the source: the limit, the
  output directory, the progress display with its total, the batch loop, the four
  accumulator files.
\<close>

definition eval_loop ::
  "args \<Rightarrow> ('rs, 'ls) collab \<Rightarrow> batch list \<Rightarrow> ('rs, 'ls) world
     \<Rightarrow> (exn + unit) \<times> ('rs, 'ls) world" where
  "eval_loop args env dl w =
     (case apply_limit args dl of
        Inl e \<Rightarrow> (Inl e, w)
      | Inr (dl', total') \<Rightarrow>
     (let d = output_dir args (local_rank env) in
     (case mkdir (fs w) d True True of
        Inl e \<Rightarrow> (Inl e, w)
      | Inr fs' \<Rightarrow>
     (let w1 = w\<lparr>fs := fs', pbar_total := Some total'\<rparr> in
     (case batches_loop env (local_rank env) d 0 (new_accumulators env) dl' w1 of
        (Inl e, w2) \<Rightarrow> (Inl e, w2)
      | (Inr acc, w2) \<Rightarrow> save_stats env d acc w2)))))"

section \<open>Vocabulary of the statements\<close>

text \<open>
  A file system is well formed when the parent of every entry is a directory.
\<close>

definition fs_ok :: "(path \<rightharpoonup> 'c node) \<Rightarrow> bool" where
  "fs_ok f = (\<forall>q. f q \<noteq> None \<longrightarrow> is_dir f (butlast q))"

text \<open>
  Two worlds agree outside a directory \<open>d\<close>: the hooks and the total of the progress
  display are the same, and only entries \<open>d / c\<close> may differ.
\<close>

definition same_outside :: "path \<Rightarrow> ('rs, 'ls) world \<Rightarrow> ('rs, 'ls) world \<Rightarrow> bool" where
  "same_outside d w w' =
     (hooks w' = hooks w \<and> pbar_total w' = pbar_total w \<and>
      (\<forall>q. (\<forall>c. q \<noteq> d @ [c]) \<longrightarrow> fs w' q = fs w q))"

text \<open>
  What one completed iteration leaves behind: the output of the forward pass (logits
  and captured stream), the metrics saved for the batch, and the two derived streams
  \<open>first_tokens\<close> and \<open>rest\<close>.
\<close>

type_synonym step =
  "(tensor3 \<times> tensor3 residual_stream) \<times> batch_output
     \<times> tensor residual_stream \<times> tensor residual_stream"

definition processed :: "('rs, 'ls) collab \<Rightarrow> batch \<Rightarrow> step \<Rightarrow> bool" where
  "processed env b = (\<lambda>((logits, stream), bo, first_tokens, rest).
     model env b = Inr (logits, stream) \<and>
     stream_map select_first stream = Inr first_tokens \<and>
     stream_map select_rest stream = Inr rest \<and>
     (\<exists>acc acc'. batch_metrics env acc b logits stream = Inr (bo, acc')))"

text \<open>The accumulators after one \<open>update\<close> per completed iteration, in order.\<close>

definition updated ::
  "('rs, 'ls) collab \<Rightarrow> ('rs, 'ls) accumulators \<Rightarrow> step list \<Rightarrow> ('rs, 'ls) accumulators" where
  "updated env acc steps =
     \<lparr>first_token_stats =
        foldl (rs_update env) (first_token_stats acc)
          (map (\<lambda>(out, bo, first_tokens, rest). first_tokens) steps),
      delta_stats =
        foldl (rs_update env) (delta_stats acc)
          (map (\<lambda>(out, bo, first_tokens, rest). residuals env rest) steps),
      stream_stats =
        foldl (rs_update env) (stream_stats acc)
          (map (\<lambda>(out, bo, first_tokens, rest). rest) steps),
      logit_stats =
        foldl (\<lambda>a lps. ls_update env a lps True) (logit_stats acc)
          (map (\<lambda>((logits, stream), bo, first_tokens, rest). log_softmax3 logits) steps)\<rparr>"

text \<open>The batch files of iterations \<open>k, k + 1, ...\<close> and the four accumulator files.\<close>

definition batch_files ::
  "('rs, 'ls) collab \<Rightarrow> path \<Rightarrow> nat \<Rightarrow> step list \<Rightarrow> (path \<times> ('rs, 'ls) obj) list" where
  "batch_files env d k steps =
     map (\<lambda>(j, (out, bo, first_tokens, rest)). (d @ [batch_name (pbar_n env j)], BatchOutput bo))
       (zip [k..<k + length steps] steps)"

definition stats_files :: "path \<Rightarrow> ('rs, 'ls) accumulators \<Rightarrow> (path \<times> ('rs, 'ls) obj) list" where
  "stats_files d acc =
     [(d @ [''first_token_stats.pt''], ResidualStatsObj (first_token_stats acc)),
      (d @ [''delta_stats.pt''], ResidualStatsObj (delta_stats acc)),
      (d @ [''stream_stats.pt''], ResidualStatsObj (stream_stats acc)),
      (d @ [''logit_stats.pt''], LogitStatsObj (logit_stats acc))]"

text \<open>Reading a rendered number back, to tell file names apart.\<close>

definition digit_val :: "char \<Rightarrow> nat" where
  "digit_val c = length (takeWhile (\<lambda>x. x \<noteq> c) ''0123456789'')"

definition nat_of_digits :: "string \<Rightarrow> nat" where
  "nat_of_digits s = foldl (\<lambda>a c. 10 * a + digit_val c) 0 s"

text \<open>The five per-layer metrics of a batch file.\<close>

definition metric_names :: "string list" where
  "metric_names = [''baseline_ce'', ''baseline_entropy'', ''lens_ce'', ''lens_entropy'', ''lens_kl'']"

text \<open>\<open>x[:, 0]\<close> and \<open>x[:, 1:]\<close> on every layer of a stream, names and order kept.\<close>

definition first_positions :: "tensor3 residual_stream \<Rightarrow> tensor residual_stream" where
  "first_positions stream = map (\<lambda>(name, x). (name, T2 (map hd x))) stream"

definition later_positions :: "tensor3 residual_stream \<Rightarrow> tensor residual_stream" where
  "later_positions stream = map (\<lambda>(name, x). (name, T3 (map (drop 1) x))) stream"



section \<open>A small run\<close>

text \<open>
  One sequence of two tokens over a vocabulary of two, a model of one layer with a
  hidden state of width one, uniform logits everywhere, accumulators that keep the
  list of what they were updated with, a serializer that never fails and a progress
  display whose counter reads the number of completed iterations.
\<close>

definition demo_batch :: batch where
  "demo_batch = [''input_ids'' \<mapsto> [[0, 1]]]"

definition demo_logits :: tensor3 where
  "demo_logits = [[[0, 0], [0, 0]]]"

definition demo_stream :: "tensor3 residual_stream" where
  "demo_stream = [(''layer0'', [[[1], [2]]])]"

definition demo_env :: "(tensor residual_stream list, (tensor3 \<times> bool) list) collab" where
  "demo_env =
     \<lparr>dist_rank = None,
      model = (\<lambda>b. Inr (demo_logits, demo_stream)),
      model_layers = 1,
      lens_len = 1,
      lens_call = (\<lambda>h i. Inr demo_logits),
      to_logits = (\<lambda>h. Inr demo_logits),
      residuals = (\<lambda>s. s),
      residual_stats_new = [],
      rs_update = (\<lambda>a x. a @ [x]),
      logit_stats_new = [],
      ls_update = (\<lambda>a x n. a @ [(x, n)]),
      save_error = (\<lambda>p. None),
      pbar_n = (\<lambda>k. k)\<rparr>"

definition demo_world :: "(tensor residual_stream list, (tensor3 \<times> bool) list) world" where
  "demo_world = \<lparr>fs = Map.empty, saved = [], hooks = 0, pbar_total = None\<rparr>"

definition demo_args :: "int option \<Rightarrow> path option \<Rightarrow> args" where
  "demo_args l out =
     \<lparr>args_seed = 0, args_per_gpu_batch_size = 1, args_limit = l, args_output = out,
      args_lens = [''lens'']\<rparr>"

text \<open>
  The same collaborators behind a progress display that has not refreshed: its counter
  still reads 0 in every iteration, as it does while the iterations take less time than
  the display's refresh interval.
\<close>

definition lagging_env :: "(tensor residual_stream list, (tensor3 \<times> bool) list) collab" where
  "lagging_env = demo_env\<lparr>pbar_n := (\<lambda>k. 0)\<rparr>"

section \<open>Directories\<close>

lemma lookup_Nil [simp]: "lookup f [] = Some Dir"
  by (simp add: lookup_def)

lemma is_dir_Nil [simp]: "is_dir f []"
  by (simp add: is_dir_def)

lemma mkdir_existing:
  assumes "is_dir f p"
  shows "mkdir f p parents True = Inr f"
  using assms by (subst mkdir.simps) (simp add: os_mkdir_def is_dir_def)

lemma mkdir_step:
  assumes "lookup f (q @ [c]) = None" "is_dir f q"
  shows "mkdir f (q @ [c]) parents ok = Inr (f(q @ [c] \<mapsto> Dir))"
  using assms by (subst mkdir.simps) (simp add: os_mkdir_def is_dir_def)

lemma os_mkdir_Inr:
  assumes "os_mkdir f p = Inr f'"
  shows "f' = f(p \<mapsto> Dir) \<and> p \<noteq> [] \<and> f p = None \<and> is_dir f (butlast p)"
  using assms
  by (auto simp: os_mkdir_def is_dir_def lookup_def split: if_splits option.splits node.splits)

text \<open>Whatever \<open>mkdir\<close> returns normally is a world where the path is a directory.\<close>

lemma mkdir_is_dir: "mkdir f p parents ok = Inr f' \<Longrightarrow> is_dir f' p"
proof (induction f p parents ok arbitrary: f' rule: mkdir.induct)
  case (1 f p parents exist_ok)
  show ?case
  proof (cases "os_mkdir f p")
    case (Inr g)
    with "1.prems" have "f' = g" by (subst (asm) mkdir.simps) simp
    with Inr show ?thesis by (auto dest!: os_mkdir_Inr simp: is_dir_def lookup_def)
  next
    case (Inl e)
    show ?thesis
    proof (cases "e = FileNotFoundError")
      case True
      with Inl "1.prems" obtain f1 where
        c: "\<not> (\<not> parents \<or> butlast p = p)" and
        m1: "mkdir f (butlast p) True True = Inr f1" and
        m2: "mkdir f1 p False exist_ok = Inr f'"
        by (subst (asm) mkdir.simps) (auto split: if_splits sum.splits)
      from "1.IH"(2)[OF Inl True c m1 m2] show ?thesis .
    next
      case False
      with Inl "1.prems" have "is_dir f p" "f' = f"
        by (subst (asm) mkdir.simps, auto split: if_splits)+
      then show ?thesis by simp
    qed
  qed
qed

lemma fs_ok_update:
  assumes "fs_ok f" "is_dir f (butlast p)"
  shows "fs_ok (f(p \<mapsto> Dir))"
  unfolding fs_ok_def
proof (intro allI impI)
  fix q
  assume q: "(f(p \<mapsto> Dir)) q \<noteq> None"
  have "is_dir f (butlast q)"
  proof (cases "q = p")
    case True with assms(2) show ?thesis by simp
  next
    case False
    with q have "f q \<noteq> None" by simp
    with assms(1) show ?thesis by (simp add: fs_ok_def)
  qed
  then show "is_dir (f(p \<mapsto> Dir)) (butlast q)"
    by (auto simp: is_dir_def lookup_def split: if_splits)
qed

lemma mkdir_fs_ok: "mkdir f p parents ok = Inr f' \<Longrightarrow> fs_ok f \<Longrightarrow> fs_ok f'"
proof (induction f p parents ok arbitrary: f' rule: mkdir.induct)
  case (1 f p parents exist_ok)
  show ?case
  proof (cases "os_mkdir f p")
    case (Inr g)
    with "1.prems" have "f' = g" by (subst (asm) mkdir.simps) simp
    with Inr "1.prems"(2) show ?thesis by (auto dest!: os_mkdir_Inr intro: fs_ok_update)
  next
    case (Inl e)
    show ?thesis
    proof (cases "e = FileNotFoundError")
      case True
      with Inl "1.prems" obtain f1 where
        c: "\<not> (\<not> parents \<or> butlast p = p)" and
        m1: "mkdir f (butlast p) True True = Inr f1" and
        m2: "mkdir f1 p False exist_ok = Inr f'"
        by (subst (asm) mkdir.simps) (auto split: if_splits sum.splits)
      from "1.IH"(1)[OF Inl True c m1 "1.prems"(2)] have "fs_ok f1" .
      from "1.IH"(2)[OF Inl True c m1 m2 this] show ?thesis .
    next
      case False
      with Inl "1.prems" have "f' = f"
        by (subst (asm) mkdir.simps) (auto split: if_splits)
      with "1.prems"(2) show ?thesis by simp
    qed
  qed
qed

lemma fs_ok_prefix: "fs_ok f \<Longrightarrow> is_dir f p \<Longrightarrow> is_dir f (take k p)"
proof (induction p rule: rev_induct)
  case Nil
  then show ?case by simp
next
  case (snoc c q)
  from snoc.prems have "f (q @ [c]) \<noteq> None" by (simp add: is_dir_def lookup_def)
  with snoc.prems(1) have "is_dir f q" by (auto simp: fs_ok_def)
  with snoc.IH snoc.prems(1) have "is_dir f (take k q)" by simp
  with snoc.prems(2) show ?case by (cases "k \<le> length q") simp_all
qed

text \<open>
  With \<open>parents=True, exist_ok=True\<close> the call succeeds whenever no component of the
  path is a file, whether the directory and its parents exist or not; entries that
  existed stay as they were, and every new entry is a directory on the path.
\<close>

lemma mkdir_parents:
  assumes "\<forall>k \<le> length p. \<forall>c. lookup f (take k p) \<noteq> Some (File c)"
  shows "\<exists>f'. mkdir f p True True = Inr f' \<and>
           (\<forall>q. f' q = f q \<or> (f q = None \<and> f' q = Some Dir \<and> (\<exists>k \<le> length p. q = take k p)))"
  using assms
proof (induction p rule: rev_induct)
  case Nil
  have "mkdir f [] True True = Inr f" by (rule mkdir_existing) simp
  then show ?case by simp
next
  case (snoc c q)
  let ?p = "q @ [c]"
  have nofile_p: "\<And>x. lookup f ?p \<noteq> Some (File x)"
    using snoc.prems[rule_format, of "length ?p"] by simp
  have nofile_q: "\<forall>k \<le> length q. \<forall>x. lookup f (take k q) \<noteq> Some (File x)"
  proof (intro allI impI)
    fix k x assume "k \<le> length q"
    then show "lookup f (take k q) \<noteq> Some (File x)"
      using snoc.prems[rule_format, of k x] by simp
  qed
  have self: "\<exists>k \<le> length ?p. ?p = take k ?p"
  proof -
    have "?p = take (length ?p) ?p" by simp
    then show ?thesis by blast
  qed
  show ?case
  proof (cases "lookup f ?p")
    case (Some n)
    with nofile_p have "is_dir f ?p" by (cases n) (auto simp: is_dir_def)
    then have "mkdir f ?p True True = Inr f" by (rule mkdir_existing)
    then show ?thesis by simp
  next
    case None
    show ?thesis
    proof (cases "is_dir f q")
      case True
      with None have "mkdir f ?p True True = Inr (f(?p \<mapsto> Dir))" by (rule mkdir_step)
      with self None show ?thesis by (auto simp: lookup_def)
    next
      case False
      from snoc.IH[OF nofile_q] obtain f1 where
        m1: "mkdir f q True True = Inr f1" and
        ext: "\<forall>r. f1 r = f r \<or> (f r = None \<and> f1 r = Some Dir \<and> (\<exists>k \<le> length q. r = take k q))"
        by blast
      from m1 have d1: "is_dir f1 q" by (rule mkdir_is_dir)
      have "\<not> (\<exists>k \<le> length q. ?p = take k q)"
      proof
        assume "\<exists>k \<le> length q. ?p = take k q"
        then obtain k where "?p = take k q" by blast
        then have "length ?p = length (take k q)" by simp
        then show False by simp
      qed
      with ext[rule_format, of ?p] have "f1 ?p = f ?p" by blast
      with None have n1: "lookup f1 ?p = None" by (simp add: lookup_def)
      from False nofile_q[rule_format, of "length q"] have lq: "lookup f q = None"
      proof (cases "lookup f q")
        case (Some n)
        with False nofile_q[rule_format, of "length q"] show ?thesis
          by (cases n) (auto simp: is_dir_def)
      qed simp
      from None lq have os: "os_mkdir f ?p = Inl FileNotFoundError"
        by (simp add: os_mkdir_def)
      have m2: "mkdir f1 ?p False True = Inr (f1(?p \<mapsto> Dir))"
        using n1 d1 by (rule mkdir_step)
      have m: "mkdir f ?p True True = Inr (f1(?p \<mapsto> Dir))"
        by (subst mkdir.simps) (simp add: os m1 m2)
      have "\<forall>r. (f1(?p \<mapsto> Dir)) r = f r \<or>
              (f r = None \<and> (f1(?p \<mapsto> Dir)) r = Some Dir \<and> (\<exists>k \<le> length ?p. r = take k ?p))"
      proof
        fix r
        show "(f1(?p \<mapsto> Dir)) r = f r \<or>
              (f r = None \<and> (f1(?p \<mapsto> Dir)) r = Some Dir \<and> (\<exists>k \<le> length ?p. r = take k ?p))"
        proof (cases "r = ?p")
          case True
          with self None show ?thesis by (simp add: lookup_def)
        next
          case False
          from ext[rule_format, of r] show ?thesis
          proof
            assume "f1 r = f r" with False show ?thesis by simp
          next
            assume a: "f r = None \<and> f1 r = Some Dir \<and> (\<exists>k \<le> length q. r = take k q)"
            then obtain k where "k \<le> length q" "r = take k q" by blast
            then have "k \<le> length ?p \<and> r = take k ?p" by simp
            with a False show ?thesis by auto
          qed
        qed
      qed
      with m show ?thesis by simp
    qed
  qed
qed

section \<open>The steps of a run\<close>

lemma and_then_Inr: "and_then m f = Inr y \<longleftrightarrow> (\<exists>x. m = Inr x \<and> f x = Inr y)"
  by (cases m) (simp_all add: and_then_def)

lemma and_then_Inl: "and_then m f = Inl e \<longleftrightarrow> (m = Inl e \<or> (\<exists>x. m = Inr x \<and> f x = Inl e))"
  by (cases m) (simp_all add: and_then_def)

text \<open>The capture hands on what the forward pass gave and leaves the world as it was.\<close>

lemma record_residual_stream_eq: "record_residual_stream env b w = (model env b, w)"
  by (simp add: record_residual_stream_def Let_def)

lemma th_save_outside: "th_save env x (d @ [c]) w = (r, w') \<Longrightarrow> same_outside d w w'"
  by (auto simp: th_save_def same_outside_def split: option.splits)

lemma th_save_Inr: "th_save env x p w = (Inr u, w') \<Longrightarrow> saved w' = saved w @ [(p, x)]"
  by (auto simp: th_save_def split: option.splits)

lemma same_outside_refl: "same_outside d w w"
  by (simp add: same_outside_def)

lemma same_outside_trans:
  "same_outside d w w1 \<Longrightarrow> same_outside d w1 w2 \<Longrightarrow> same_outside d w w2"
  by (simp add: same_outside_def)

lemma batch_metrics_Inr:
  assumes "batch_metrics env acc batch logits stream = Inr (bo, acc')"
  shows "\<exists>ids bo0 ft rest ce h.
     batch ''input_ids'' = Some ids \<and>
     layers_loop env (log_softmax3 logits) (exp3 (log_softmax3 logits)) (map (drop 1) ids)
       Map.empty (zip [0..<lens_len env] stream) = Inr bo0 \<and>
     stream_map select_first stream = Inr ft \<and>
     stream_map select_rest stream = Inr rest \<and>
     cross_entropy (flatten (maybe_shift_preds (log_softmax3 logits) 1))
       (flatten (map (drop 1) ids)) = Inr ce \<and>
     entropy (exp3 (log_softmax3 logits)) (log_softmax3 logits) = Inr h \<and>
     bo = dd_set (dd_set bo0 ''baseline_ce'' ''final'' (T1 ce))
            ''baseline_entropy'' ''final'' (T2 h) \<and>
     acc' = \<lparr>first_token_stats = rs_update env (first_token_stats acc) ft,
             delta_stats = rs_update env (delta_stats acc) (residuals env rest),
             stream_stats = rs_update env (stream_stats acc) rest,
             logit_stats = ls_update env (logit_stats acc) (log_softmax3 logits) True\<rparr>"
  using assms
  by (cases "batch ''input_ids''") (auto simp: batch_metrics_def Let_def and_then_Inr)

text \<open>The body of the loop, outcome by outcome.\<close>

lemma batch_body_cases:
  "batch_body env r d k acc b w =
     (case model env b of
        Inl e \<Rightarrow> (Inl e, w)
      | Inr (lg, st) \<Rightarrow>
          (case batch_metrics env acc b lg st of
             Inl e \<Rightarrow> (Inl e, w)
           | Inr (bo, acc') \<Rightarrow>
               (case save_error env (d @ [batch_name (pbar_n env k)]) of
                  Some e \<Rightarrow> (Inl e, w)
                | None \<Rightarrow>
                    (Inr acc',
                     w\<lparr>fs := (fs w)(d @ [batch_name (pbar_n env k)] \<mapsto> File (BatchOutput bo)),
                       saved := saved w @ [(d @ [batch_name (pbar_n env k)], BatchOutput bo)]\<rparr>))))"
  by (simp add: batch_body_def record_residual_stream_eq send_to_device_def th_save_def Let_def
        split: sum.splits prod.splits option.splits)

lemma batch_body_outside: "batch_body env r d k acc b w = (res, w') \<Longrightarrow> same_outside d w w'"
  by (auto simp: batch_body_cases same_outside_def split: sum.splits prod.splits option.splits)

lemma batches_loop_outside:
  "batches_loop env r d k acc bs w = (res, w') \<Longrightarrow> same_outside d w w'"
proof (induction bs arbitrary: k acc w)
  case Nil
  then show ?case by (simp add: same_outside_refl)
next
  case (Cons b bs)
  obtain r1 w1 where bb: "batch_body env r d k acc b w = (r1, w1)"
    by (cases "batch_body env r d k acc b w")
  then have o1: "same_outside d w w1" by (rule batch_body_outside)
  show ?case
  proof (cases r1)
    case (Inl e)
    with Cons.prems bb have "w' = w1" by simp
    with o1 show ?thesis by simp
  next
    case (Inr acc1)
    with Cons.prems bb have "batches_loop env r d (Suc k) acc1 bs w1 = (res, w')" by simp
    then have "same_outside d w1 w'" by (rule Cons.IH)
    with o1 show ?thesis by (rule same_outside_trans)
  qed
qed

lemma save_stats_outside: "save_stats env d acc w = (res, w') \<Longrightarrow> same_outside d w w'"
  unfolding save_stats_def
  by (auto split: prod.splits sum.splits dest!: th_save_outside intro: same_outside_trans)

lemma save_stats_Inr:
  "save_stats env d acc w = (Inr u, w') \<Longrightarrow> saved w' = saved w @ stats_files d acc"
  unfolding save_stats_def
  by (auto split: prod.splits sum.splits dest!: th_save_Inr simp: stats_files_def)

lemma batch_files_Cons:
  "batch_files env d k (s # steps) =
     (d @ [batch_name (pbar_n env k)], BatchOutput (fst (snd s)))
       # batch_files env d (Suc k) steps"
proof -
  have "[k..<k + length (s # steps)] = k # [Suc k..<Suc k + length steps]"
    by (subst upt_rec) simp
  then show ?thesis
    by (cases s) (simp add: batch_files_def del: upt_Suc)
qed

lemma updated_Nil: "updated env acc [] = acc"
  by (simp add: updated_def)

text \<open>
  A loop that returns has completed every iteration: one step per batch, one update
  of each accumulator per step, one file per step, in order.
\<close>

lemma batches_loop_Inr:
  assumes "batches_loop env r d k acc bs w = (Inr acc', w')"
  shows "\<exists>steps. list_all2 (processed env) bs steps \<and> acc' = updated env acc steps \<and>
           saved w' = saved w @ batch_files env d k steps"
  using assms
proof (induction bs arbitrary: k acc w)
  case Nil
  then have "list_all2 (processed env) [] [] \<and> acc' = updated env acc [] \<and>
           saved w' = saved w @ batch_files env d k []"
    by (simp add: updated_Nil batch_files_def)
  then show ?case by blast
next
  case (Cons b bs)
  let ?p = "d @ [batch_name (pbar_n env k)]"
  from Cons.prems obtain lg st bo acc1 where
    m: "model env b = Inr (lg, st)" and
    bm: "batch_metrics env acc b lg st = Inr (bo, acc1)" and
    rest: "batches_loop env r d (Suc k) acc1 bs
             (w\<lparr>fs := (fs w)(?p \<mapsto> File (BatchOutput bo)),
                saved := saved w @ [(?p, BatchOutput bo)]\<rparr>) = (Inr acc', w')"
    by (auto simp: batch_body_cases split: sum.splits prod.splits option.splits)
  from batch_metrics_Inr[OF bm] obtain ft rs where
    ft: "stream_map select_first st = Inr ft" and
    rs: "stream_map select_rest st = Inr rs" and
    acc1: "acc1 = \<lparr>first_token_stats = rs_update env (first_token_stats acc) ft,
             delta_stats = rs_update env (delta_stats acc) (residuals env rs),
             stream_stats = rs_update env (stream_stats acc) rs,
             logit_stats = ls_update env (logit_stats acc) (log_softmax3 lg) True\<rparr>"
    by blast
  let ?s = "((lg, st), bo, ft, rs)"
  have p: "processed env b ?s"
    using m ft rs bm by (auto simp: processed_def)
  from Cons.IH[OF rest] obtain steps where
    a: "list_all2 (processed env) bs steps" and
    b: "acc' = updated env acc1 steps" and
    c: "saved w' = (saved w @ [(?p, BatchOutput bo)]) @ batch_files env d (Suc k) steps"
    by auto
  have "list_all2 (processed env) (b # bs) (?s # steps)" using p a by simp
  moreover have "acc' = updated env acc (?s # steps)"
    using b acc1 by (simp add: updated_def)
  moreover have "saved w' = saved w @ batch_files env d k (?s # steps)"
    using c by (simp add: batch_files_Cons)
  ultimately show ?case by blast
qed

text \<open>What a run that got past the limit and the directory leaves outside the directory.\<close>

lemma eval_loop_outside:
  assumes run: "eval_loop args env dl w = (res, w')"
    and al: "apply_limit args dl = Inr (bs, t)"
    and mk: "mkdir (fs w) (output_dir args (local_rank env)) True True = Inr f1"
  shows "same_outside (output_dir args (local_rank env)) (w\<lparr>fs := f1, pbar_total := Some t\<rparr>) w'"
proof -
  let ?d = "output_dir args (local_rank env)"
  let ?w1 = "w\<lparr>fs := f1, pbar_total := Some t\<rparr>"
  obtain r2 w2 where
    bl: "batches_loop env (local_rank env) ?d 0 (new_accumulators env) bs ?w1 = (r2, w2)"
    by (cases "batches_loop env (local_rank env) ?d 0 (new_accumulators env) bs ?w1")
  from batches_loop_outside[OF bl] have o2: "same_outside ?d ?w1 w2" .
  show ?thesis
  proof (cases r2)
    case (Inl e)
    with al mk bl run have "w' = w2" by (simp add: eval_loop_def Let_def)
    with o2 show ?thesis by simp
  next
    case (Inr acc)
    with al mk bl run have "save_stats env ?d acc w2 = (res, w')"
      by (simp add: eval_loop_def Let_def)
    from o2 save_stats_outside[OF this] show ?thesis by (rule same_outside_trans)
  qed
qed

text \<open>A run that returns normally: its limit, its directory, its steps and its files.\<close>

lemma eval_loop_Inr:
  assumes "eval_loop args env dl w = (Inr u, w')"
  shows "\<exists>bs t f1 steps.
           apply_limit args dl = Inr (bs, t) \<and>
           mkdir (fs w) (output_dir args (local_rank env)) True True = Inr f1 \<and>
           list_all2 (processed env) bs steps \<and>
           saved w' = saved w @ batch_files env (output_dir args (local_rank env)) 0 steps
                        @ stats_files (output_dir args (local_rank env))
                            (updated env (new_accumulators env) steps)"
proof -
  let ?d = "output_dir args (local_rank env)"
  from assms obtain bs t f1 acc w2 where
    al: "apply_limit args dl = Inr (bs, t)" and
    mk: "mkdir (fs w) ?d True True = Inr f1" and
    bl: "batches_loop env (local_rank env) ?d 0 (new_accumulators env) bs
           (w\<lparr>fs := f1, pbar_total := Some t\<rparr>) = (Inr acc, w2)" and
    ss: "save_stats env ?d acc w2 = (Inr u, w')"
    by (auto simp: eval_loop_def Let_def split: sum.splits prod.splits)
  from batches_loop_Inr[OF bl] obtain steps where
    a: "list_all2 (processed env) bs steps" and
    b: "acc = updated env (new_accumulators env) steps" and
    c: "saved w2 = saved w @ batch_files env ?d 0 steps"
    by auto
  from save_stats_Inr[OF ss] have e: "saved w' = saved w2 @ stats_files ?d acc" .
  show ?thesis using al mk a b c e by auto
qed

section \<open>The small run, evaluated\<close>

lemma str_nat_digit: "n < 10 \<Longrightarrow> str_nat n = [digit n]"
  by (simp add: str_nat.simps)

lemma rank_name_0: "rank_name 0 = ''rank_0''"
  by (simp add: rank_name_def str_nat_digit digit_def)

lemma local_rank_demo: "local_rank demo_env = 0"
  by (simp add: local_rank_def demo_env_def)

lemma demo_batch_metrics:
  "\<exists>bo acc'. batch_metrics demo_env acc demo_batch demo_logits demo_stream = Inr (bo, acc')"
  by (simp add: batch_metrics_def demo_env_def demo_batch_def demo_logits_def demo_stream_def
        and_then_def layer_metrics_def log_softmax3_def exp3_def cross_entropy_def flatten_def
        maybe_shift_preds_def entropy_def kl_div_def binop3_def shape3_def neg3_def
        select_first_def select_rest_def log_softmax_def Let_def)

lemma demo_batch_body:
  "\<exists>bo acc'. batch_body demo_env r d k acc demo_batch w =
     (Inr acc', w\<lparr>fs := (fs w)(d @ [batch_name k] \<mapsto> File (BatchOutput bo)),
                 saved := saved w @ [(d @ [batch_name k], BatchOutput bo)]\<rparr>)"
proof -
  obtain bo acc' where
    "batch_metrics demo_env acc demo_batch demo_logits demo_stream = Inr (bo, acc')"
    using demo_batch_metrics by blast
  then have "batch_body demo_env r d k acc demo_batch w =
     (Inr acc', w\<lparr>fs := (fs w)(d @ [batch_name k] \<mapsto> File (BatchOutput bo)),
                 saved := saved w @ [(d @ [batch_name k], BatchOutput bo)]\<rparr>)"
    by (simp add: batch_body_cases) (simp add: demo_env_def)
  then show ?thesis by blast
qed

lemma demo_mkdir_out:
  "mkdir Map.empty [''out'', ''rank_0''] True True =
     Inr [[''out''] \<mapsto> Dir, [''out'', ''rank_0''] \<mapsto> Dir]"
  by (simp add: mkdir.simps os_mkdir_def lookup_def is_dir_def)

section \<open>The output directory\<close>

text \<open>
  C1, as amended. The output directory is \<open><output>/rank_<rank>\<close> when an output path
  is configured and \<open><lens>/eval/rank_<rank>\<close> otherwise: \<open>eval\<close> is appended to the
  lens path only. Whenever the run gets as far as the directory and no component of
  that path is a file, the directory and all its parents exist afterwards, whether or
  not they existed before, and creating it once more, as a second run with the same
  rank and path does, succeeds and changes nothing.
\<close>

theorem output_dir_created:
  assumes run: "eval_loop args env dl w = (res, w')"
    and lim: "apply_limit args dl = Inr (bs, t)"
    and ok: "fs_ok (fs w)"
    and nofile: "\<forall>k \<le> length (output_dir args (local_rank env)). \<forall>c.
                   lookup (fs w) (take k (output_dir args (local_rank env))) \<noteq> Some (File c)"
  shows "output_dir args (local_rank env) =
           (case args_output args of
              Some out \<Rightarrow> out @ [rank_name (local_rank env)]
            | None \<Rightarrow> args_lens args @ [''eval'', rank_name (local_rank env)]) \<and>
         (\<forall>k \<le> length (output_dir args (local_rank env)).
            is_dir (fs w') (take k (output_dir args (local_rank env)))) \<and>
         mkdir (fs w') (output_dir args (local_rank env)) True True = Inr (fs w')"
proof -
  let ?d = "output_dir args (local_rank env)"
  have path: "?d = (case args_output args of
              Some out \<Rightarrow> out @ [rank_name (local_rank env)]
            | None \<Rightarrow> args_lens args @ [''eval'', rank_name (local_rank env)])"
    by (simp add: output_dir_def root_dir_def split: option.splits)
  from mkdir_parents[OF nofile] obtain f1 where mk: "mkdir (fs w) ?d True True = Inr f1"
    by blast
  from mk have d1: "is_dir f1 ?d" by (rule mkdir_is_dir)
  from mk ok have ok1: "fs_ok f1" by (rule mkdir_fs_ok)
  from eval_loop_outside[OF run lim mk]
  have same: "\<And>q. (\<forall>c. q \<noteq> ?d @ [c]) \<Longrightarrow> fs w' q = f1 q"
    by (simp add: same_outside_def)
  have prefixes: "is_dir (fs w') (take k ?d)" for k
  proof -
    have "\<forall>c. take k ?d \<noteq> ?d @ [c]"
    proof
      fix c
      have "length (take k ?d) \<noteq> length (?d @ [c])" by simp
      then show "take k ?d \<noteq> ?d @ [c]" by metis
    qed
    then have "fs w' (take k ?d) = f1 (take k ?d)" by (rule same)
    moreover from ok1 d1 have "is_dir f1 (take k ?d)" by (rule fs_ok_prefix)
    ultimately show ?thesis by (auto simp: is_dir_def lookup_def split: if_splits)
  qed
  from prefixes[of "length ?d"] have "is_dir (fs w') ?d" by simp
  then have "mkdir (fs w') ?d True True = Inr (fs w')" by (rule mkdir_existing)
  with path prefixes show ?thesis by blast
qed

theorem output_dir_created_witness:
  "apply_limit (demo_args None None) [demo_batch] = Inr ([demo_batch], 1) \<and>
   fs_ok (fs demo_world) \<and>
   output_dir (demo_args None None) (local_rank demo_env) = [''lens'', ''eval'', ''rank_0''] \<and>
   is_dir (fs (snd (eval_loop (demo_args None None) demo_env [demo_batch] demo_world)))
     [''lens'', ''eval'', ''rank_0''] \<and>
   mkdir (fs (snd (eval_loop (demo_args None None) demo_env [demo_batch] demo_world)))
     [''lens'', ''eval'', ''rank_0''] True True =
     Inr (fs (snd (eval_loop (demo_args None None) demo_env [demo_batch] demo_world)))"
proof -
  let ?run = "eval_loop (demo_args None None) demo_env [demo_batch] demo_world"
  have d: "output_dir (demo_args None None) (local_rank demo_env) = [''lens'', ''eval'', ''rank_0'']"
    by (simp add: output_dir_def root_dir_def demo_args_def local_rank_demo rank_name_0)
  have run: "?run = (fst ?run, snd ?run)" by simp
  have lim: "apply_limit (demo_args None None) [demo_batch] = Inr ([demo_batch], 1)"
    by (simp add: apply_limit_def truthy_def demo_args_def)
  have ok: "fs_ok (fs demo_world)" by (simp add: fs_ok_def demo_world_def)
  have nofile: "\<forall>k \<le> length (output_dir (demo_args None None) (local_rank demo_env)). \<forall>c.
      lookup (fs demo_world) (take k (output_dir (demo_args None None) (local_rank demo_env)))
        \<noteq> Some (File c)"
    by (simp add: lookup_def demo_world_def)
  from output_dir_created[OF run lim ok nofile]
  have every: "\<forall>k \<le> length [''lens'', ''eval'', ''rank_0''].
            is_dir (fs (snd ?run)) (take k [''lens'', ''eval'', ''rank_0''])"
    and again: "mkdir (fs (snd ?run)) [''lens'', ''eval'', ''rank_0''] True True = Inr (fs (snd ?run))"
    unfolding d by blast+
  from every[rule_format, of 3]
  have "is_dir (fs (snd ?run)) [''lens'', ''eval'', ''rank_0'']" by simp
  with again have "is_dir (fs (snd ?run)) [''lens'', ''eval'', ''rank_0''] \<and>
         mkdir (fs (snd ?run)) [''lens'', ''eval'', ''rank_0''] True True = Inr (fs (snd ?run))"
    by simp
  with lim ok d show ?thesis by simp
qed

text \<open>
  With an output path configured, \<open>out\<close>, and rank 0 the directory is \<open>out/rank_0\<close>,
  not \<open>out/eval/rank_0\<close>, and the run creates no \<open>out/eval\<close>.
\<close>

theorem output_dir_eval_counterexample:
  "output_dir (demo_args None (Some [''out''])) (local_rank demo_env) = [''out'', ''rank_0''] \<and>
   output_dir (demo_args None (Some [''out''])) (local_rank demo_env)
     \<noteq> [''out'', ''eval'', ''rank_0''] \<and>
   fs (snd (eval_loop (demo_args None (Some [''out''])) demo_env [demo_batch] demo_world))
     [''out'', ''eval''] = None"
proof -
  let ?args = "demo_args None (Some [''out''])"
  let ?run = "eval_loop ?args demo_env [demo_batch] demo_world"
  have d: "output_dir ?args (local_rank demo_env) = [''out'', ''rank_0'']"
    by (simp add: output_dir_def root_dir_def demo_args_def local_rank_demo rank_name_0)
  have run: "?run = (fst ?run, snd ?run)" by simp
  have lim: "apply_limit ?args [demo_batch] = Inr ([demo_batch], 1)"
    by (simp add: apply_limit_def truthy_def demo_args_def)
  have mk: "mkdir (fs demo_world) (output_dir ?args (local_rank demo_env)) True True =
              Inr [[''out''] \<mapsto> Dir, [''out'', ''rank_0''] \<mapsto> Dir]"
    by (simp add: d demo_world_def demo_mkdir_out)
  from eval_loop_outside[OF run lim mk]
  have "\<forall>q. (\<forall>c. q \<noteq> [''out'', ''rank_0''] @ [c]) \<longrightarrow>
          fs (snd ?run) q = [[''out''] \<mapsto> Dir, [''out'', ''rank_0''] \<mapsto> Dir] q"
    unfolding d by (simp add: same_outside_def)
  then have "fs (snd ?run) [''out'', ''eval''] =
               [[''out''] \<mapsto> Dir, [''out'', ''rank_0''] \<mapsto> Dir] [''out'', ''eval'']"
    by simp
  then have "fs (snd ?run) [''out'', ''eval''] = None" by simp
  with d show ?thesis by simp
qed

section \<open>The limit\<close>

lemma apply_limit_cases:
  "apply_limit args dl =
     (case args_limit args of
        None \<Rightarrow> Inr (dl, int (length dl))
      | Some n \<Rightarrow>
          if n = 0 then Inr (dl, int (length dl))
          else if n < 0 then Inl ValueError
          else Inr (take (nat n) dl, n))"
  by (simp add: apply_limit_def truthy_def islice_def split: option.splits)

lemma pbar_n_demo: "pbar_n demo_env k = k"
  by (simp add: demo_env_def)

lemma save_error_demo: "save_error demo_env p = None"
  by (simp add: demo_env_def)

lemma demo_batches_loop:
  "\<exists>acc' w'. batches_loop demo_env r d k acc (replicate n demo_batch) w = (Inr acc', w') \<and>
      map fst (saved w') = map fst (saved w) @ map (\<lambda>j. d @ [batch_name j]) [k..<k + n]"
proof (induction n arbitrary: k acc w)
  case 0
  then show ?case by simp
next
  case (Suc n)
  obtain bo acc1 where
    bb: "batch_body demo_env r d k acc demo_batch w =
           (Inr acc1, w\<lparr>fs := (fs w)(d @ [batch_name k] \<mapsto> File (BatchOutput bo)),
                        saved := saved w @ [(d @ [batch_name k], BatchOutput bo)]\<rparr>)"
    using demo_batch_body by blast
  let ?w1 = "w\<lparr>fs := (fs w)(d @ [batch_name k] \<mapsto> File (BatchOutput bo)),
               saved := saved w @ [(d @ [batch_name k], BatchOutput bo)]\<rparr>"
  from Suc.IH[of "Suc k" acc1 ?w1] obtain acc' w' where
    l: "batches_loop demo_env r d (Suc k) acc1 (replicate n demo_batch) ?w1 = (Inr acc', w')" and
    s: "map fst (saved w') = map fst (saved ?w1) @ map (\<lambda>j. d @ [batch_name j]) [Suc k..<Suc k + n]"
    by blast
  have u: "[k..<k + Suc n] = k # [Suc k..<Suc k + n]"
    by (subst upt_rec) simp
  have "batches_loop demo_env r d k acc (replicate (Suc n) demo_batch) w = (Inr acc', w')"
    using bb l by simp
  moreover have "map fst (saved w') =
      map fst (saved w) @ map (\<lambda>j. d @ [batch_name j]) [k..<k + Suc n]"
    unfolding u using s by simp
  ultimately show ?case by blast
qed

lemma demo_save_stats:
  "\<exists>w'. save_stats demo_env d acc w = (Inr (), w') \<and> saved w' = saved w @ stats_files d acc"
  by (simp add: save_stats_def th_save_def save_error_demo stats_files_def)

text \<open>The small run returns normally whatever the number of batches.\<close>

lemma demo_eval_loop:
  assumes al: "apply_limit args dl = Inr (replicate n demo_batch, t)"
    and mk: "mkdir (fs w) (output_dir args 0) True True = Inr f1"
  shows "\<exists>w'. eval_loop args demo_env dl w = (Inr (), w') \<and>
           map fst (saved w') = map fst (saved w)
             @ map (\<lambda>j. output_dir args 0 @ [batch_name j]) [0..<n]
             @ [output_dir args 0 @ [''first_token_stats.pt''],
                output_dir args 0 @ [''delta_stats.pt''],
                output_dir args 0 @ [''stream_stats.pt''],
                output_dir args 0 @ [''logit_stats.pt'']]"
proof -
  let ?d = "output_dir args 0"
  let ?w1 = "w\<lparr>fs := f1, pbar_total := Some t\<rparr>"
  from demo_batches_loop[of 0 ?d 0 "new_accumulators demo_env" n ?w1] obtain acc w2 where
    l: "batches_loop demo_env 0 ?d 0 (new_accumulators demo_env) (replicate n demo_batch) ?w1
          = (Inr acc, w2)" and
    s: "map fst (saved w2) = map fst (saved w) @ map (\<lambda>j. ?d @ [batch_name j]) [0..<n]"
    by auto
  from demo_save_stats[of ?d acc w2] obtain w' where
    ss: "save_stats demo_env ?d acc w2 = (Inr (), w')" and
    s': "saved w' = saved w2 @ stats_files ?d acc"
    by blast
  have "eval_loop args demo_env dl w = (Inr (), w')"
    using al mk l ss by (simp add: eval_loop_def local_rank_demo)
  moreover have "map fst (saved w') = map fst (saved w)
             @ map (\<lambda>j. ?d @ [batch_name j]) [0..<n]
             @ [?d @ [''first_token_stats.pt''], ?d @ [''delta_stats.pt''],
                ?d @ [''stream_stats.pt''], ?d @ [''logit_stats.pt'']]"
    using s s' by (simp add: stats_files_def)
  ultimately show ?thesis by blast
qed

lemma output_dir_demo_out: "output_dir (demo_args l (Some [''out''])) 0 = [''out'', ''rank_0'']"
  by (simp add: output_dir_def root_dir_def demo_args_def rank_name_0)

lemma batch_name_0: "batch_name 0 = ''batch_0.pt''"
  by (simp add: batch_name_def str_nat_digit digit_def)

lemma batch_name_1: "batch_name (Suc 0) = ''batch_1.pt''"
  by (simp add: batch_name_def str_nat_digit digit_def)

text \<open>
  C2, as amended. A limit of 0 is false in \<open>if args.limit:\<close>, so it is no limit at
  all: the run is the run without a limit, every batch of the data loader is
  processed and \<open>len(dl)\<close> is the total. A run that returns normally has created the
  output directory and written the four accumulator files last, after one batch file
  per batch of the loader; zero batch files and the accumulators as constructed are
  what is written when the loader itself has no batch.
\<close>

theorem limit_zero_is_no_limit:
  assumes zero: "args_limit args = Some 0"
  shows "eval_loop args env dl w = eval_loop (args\<lparr>args_limit := None\<rparr>) env dl w \<and>
         apply_limit args dl = Inr (dl, int (length dl)) \<and>
         (\<forall>u w'. eval_loop args env dl w = (Inr u, w') \<longrightarrow>
            is_dir (fs w') (output_dir args (local_rank env)) \<and>
            (\<exists>steps. list_all2 (processed env) dl steps \<and>
               saved w' = saved w @ batch_files env (output_dir args (local_rank env)) 0 steps
                 @ stats_files (output_dir args (local_rank env))
                     (updated env (new_accumulators env) steps)) \<and>
            (dl = [] \<longrightarrow>
               saved w' = saved w @ stats_files (output_dir args (local_rank env))
                                      (new_accumulators env)))"
proof -
  let ?d = "output_dir args (local_rank env)"
  have al: "apply_limit args dl = Inr (dl, int (length dl))"
    using zero by (simp add: apply_limit_cases)
  have al': "apply_limit (args\<lparr>args_limit := None\<rparr>) dl = Inr (dl, int (length dl))"
    by (simp add: apply_limit_cases)
  have od: "output_dir (args\<lparr>args_limit := None\<rparr>) (local_rank env) = ?d"
    by (simp add: output_dir_def root_dir_def split: option.splits)
  have same: "eval_loop args env dl w = eval_loop (args\<lparr>args_limit := None\<rparr>) env dl w"
    by (simp add: eval_loop_def al al' od)
  have rest: "is_dir (fs w') ?d \<and>
            (\<exists>steps. list_all2 (processed env) dl steps \<and>
               saved w' = saved w @ batch_files env ?d 0 steps
                 @ stats_files ?d (updated env (new_accumulators env) steps)) \<and>
            (dl = [] \<longrightarrow> saved w' = saved w @ stats_files ?d (new_accumulators env))"
    if run: "eval_loop args env dl w = (Inr u, w')" for u w'
  proof -
    from eval_loop_Inr[OF run] al obtain f1 steps where
      mk: "mkdir (fs w) ?d True True = Inr f1" and
      st: "list_all2 (processed env) dl steps" and
      sv: "saved w' = saved w @ batch_files env ?d 0 steps
                 @ stats_files ?d (updated env (new_accumulators env) steps)"
      by auto
    from mk have "is_dir f1 ?d" by (rule mkdir_is_dir)
    moreover from eval_loop_outside[OF run al mk] have "fs w' ?d = f1 ?d"
      by (simp add: same_outside_def)
    ultimately have dir: "is_dir (fs w') ?d"
      by (auto simp: is_dir_def lookup_def split: if_splits)
    have "saved w' = saved w @ stats_files ?d (new_accumulators env)" if "dl = []"
      using that st sv by (simp add: batch_files_def updated_Nil)
    with dir st sv show ?thesis by blast
  qed
  from same al rest show ?thesis by blast
qed

theorem limit_zero_is_no_limit_witness:
  "args_limit (demo_args (Some 0) (Some [''out''])) = Some 0 \<and>
   eval_loop (demo_args (Some 0) (Some [''out''])) demo_env [] demo_world =
     eval_loop (demo_args None (Some [''out''])) demo_env [] demo_world \<and>
   fst (eval_loop (demo_args (Some 0) (Some [''out''])) demo_env [] demo_world) = Inr () \<and>
   is_dir (fs (snd (eval_loop (demo_args (Some 0) (Some [''out''])) demo_env [] demo_world)))
     [''out'', ''rank_0''] \<and>
   saved (snd (eval_loop (demo_args (Some 0) (Some [''out''])) demo_env [] demo_world)) =
     stats_files [''out'', ''rank_0''] (new_accumulators demo_env)"
proof -
  let ?args = "demo_args (Some 0) (Some [''out''])"
  let ?run = "eval_loop ?args demo_env [] demo_world"
  have zero: "args_limit ?args = Some 0" by (simp add: demo_args_def)
  have none: "?args\<lparr>args_limit := None\<rparr> = demo_args None (Some [''out''])"
    by (simp add: demo_args_def)
  have al: "apply_limit ?args [] = Inr (replicate 0 demo_batch, 0)"
    by (simp add: apply_limit_cases demo_args_def)
  have mk: "mkdir (fs demo_world) (output_dir ?args 0) True True =
              Inr [[''out''] \<mapsto> Dir, [''out'', ''rank_0''] \<mapsto> Dir]"
    by (simp add: output_dir_demo_out demo_world_def demo_mkdir_out)
  from demo_eval_loop[OF al mk] obtain w' where run: "?run = (Inr (), w')" by blast
  from limit_zero_is_no_limit[OF zero, of demo_env "[]" demo_world]
  have same: "?run = eval_loop (?args\<lparr>args_limit := None\<rparr>) demo_env [] demo_world"
    and rest: "\<forall>u w'. ?run = (Inr u, w') \<longrightarrow>
            is_dir (fs w') (output_dir ?args (local_rank demo_env)) \<and>
            (\<exists>steps. list_all2 (processed demo_env) [] steps \<and>
               saved w' = saved demo_world
                 @ batch_files demo_env (output_dir ?args (local_rank demo_env)) 0 steps
                 @ stats_files (output_dir ?args (local_rank demo_env))
                     (updated demo_env (new_accumulators demo_env) steps)) \<and>
            ([] = ([] :: batch list) \<longrightarrow>
               saved w' = saved demo_world
                 @ stats_files (output_dir ?args (local_rank demo_env))
                     (new_accumulators demo_env))"
    by blast+
  from rest run
  have dir: "is_dir (fs w') (output_dir ?args (local_rank demo_env))"
    and sv: "saved w' = saved demo_world
               @ stats_files (output_dir ?args (local_rank demo_env)) (new_accumulators demo_env)"
    by blast+
  from run have c3: "fst ?run = Inr ()" and w': "snd ?run = w'" by simp_all
  from same none have c2: "?run = eval_loop (demo_args None (Some [''out''])) demo_env [] demo_world"
    by simp
  from dir have c4: "is_dir (fs (snd ?run)) [''out'', ''rank_0'']"
    unfolding w' by (simp add: local_rank_demo output_dir_demo_out)
  from sv have c5: "saved (snd ?run) = stats_files [''out'', ''rank_0''] (new_accumulators demo_env)"
    unfolding w' by (simp add: local_rank_demo output_dir_demo_out demo_world_def)
  from zero c2 c3 c4 c5 show ?thesis by blast
qed

text \<open>
  A limit of 0 and a loader of one batch: the batch is processed and its file is
  written before the four accumulator files.
\<close>

theorem limit_zero_counterexample:
  "map fst (saved (snd (eval_loop (demo_args (Some 0) (Some [''out'']))
                          demo_env [demo_batch] demo_world))) =
     [[''out'', ''rank_0'', ''batch_0.pt''],
      [''out'', ''rank_0'', ''first_token_stats.pt''],
      [''out'', ''rank_0'', ''delta_stats.pt''],
      [''out'', ''rank_0'', ''stream_stats.pt''],
      [''out'', ''rank_0'', ''logit_stats.pt'']]"
proof -
  let ?args = "demo_args (Some 0) (Some [''out''])"
  have al: "apply_limit ?args [demo_batch] = Inr (replicate 1 demo_batch, 1)"
    by (simp add: apply_limit_cases demo_args_def)
  have mk: "mkdir (fs demo_world) (output_dir ?args 0) True True =
              Inr [[''out''] \<mapsto> Dir, [''out'', ''rank_0''] \<mapsto> Dir]"
    by (simp add: output_dir_demo_out demo_world_def demo_mkdir_out)
  from demo_eval_loop[OF al mk] show ?thesis
    by (auto simp: output_dir_demo_out demo_world_def batch_name_0)
qed

text \<open>
  C5, as amended. A run that returns normally has processed the first \<open>n\<close> batches of
  the loader, at most \<open>n\<close> of them, with \<open>n\<close> as the total of the progress display,
  when a positive limit \<open>n\<close> is configured; it has processed every batch of the loader,
  with their number as the total, when no limit is configured or the limit is 0. (With
  a negative limit \<open>islice\<close> raises and no run returns normally.)
\<close>

theorem limit_truncates_batches:
  assumes run: "eval_loop args env dl w = (Inr u, w')"
  shows "\<exists>bs steps.
           list_all2 (processed env) bs steps \<and>
           saved w' = saved w @ batch_files env (output_dir args (local_rank env)) 0 steps
             @ stats_files (output_dir args (local_rank env))
                 (updated env (new_accumulators env) steps) \<and>
           (case args_limit args of
              None \<Rightarrow> bs = dl \<and> pbar_total w' = Some (int (length dl))
            | Some n \<Rightarrow>
                if n = 0 then bs = dl \<and> pbar_total w' = Some (int (length dl))
                else 0 < n \<and> bs = take (nat n) dl \<and> length bs \<le> nat n \<and>
                     pbar_total w' = Some n)"
proof -
  let ?d = "output_dir args (local_rank env)"
  from eval_loop_Inr[OF run] obtain bs t f1 steps where
    al: "apply_limit args dl = Inr (bs, t)" and
    mk: "mkdir (fs w) ?d True True = Inr f1" and
    st: "list_all2 (processed env) bs steps" and
    sv: "saved w' = saved w @ batch_files env ?d 0 steps
           @ stats_files ?d (updated env (new_accumulators env) steps)"
    by blast
  from eval_loop_outside[OF run al mk] have tot: "pbar_total w' = Some t"
    by (simp add: same_outside_def)
  have "case args_limit args of
              None \<Rightarrow> bs = dl \<and> pbar_total w' = Some (int (length dl))
            | Some n \<Rightarrow>
                if n = 0 then bs = dl \<and> pbar_total w' = Some (int (length dl))
                else 0 < n \<and> bs = take (nat n) dl \<and> length bs \<le> nat n \<and>
                     pbar_total w' = Some n"
    using al tot by (auto simp: apply_limit_cases split: option.splits if_splits)
  with st sv show ?thesis by blast
qed

theorem limit_truncates_batches_witness:
  "eval_loop (demo_args (Some 1) (Some [''out''])) demo_env [demo_batch, demo_batch] demo_world =
     (Inr (), snd (eval_loop (demo_args (Some 1) (Some [''out''])) demo_env
                     [demo_batch, demo_batch] demo_world)) \<and>
   pbar_total (snd (eval_loop (demo_args (Some 1) (Some [''out''])) demo_env
                      [demo_batch, demo_batch] demo_world)) = Some 1 \<and>
   length (saved (snd (eval_loop (demo_args (Some 1) (Some [''out''])) demo_env
                         [demo_batch, demo_batch] demo_world))) = 5"
proof -
  let ?args = "demo_args (Some 1) (Some [''out''])"
  let ?run = "eval_loop ?args demo_env [demo_batch, demo_batch] demo_world"
  have al: "apply_limit ?args [demo_batch, demo_batch] = Inr (replicate 1 demo_batch, 1)"
    by (simp add: apply_limit_cases demo_args_def)
  have mk: "mkdir (fs demo_world) (output_dir ?args 0) True True =
              Inr [[''out''] \<mapsto> Dir, [''out'', ''rank_0''] \<mapsto> Dir]"
    by (simp add: output_dir_demo_out demo_world_def demo_mkdir_out)
  from demo_eval_loop[OF al mk] have run: "?run = (Inr (), snd ?run)" by auto
  from limit_truncates_batches[OF run] obtain bs steps where
    st: "list_all2 (processed demo_env) bs steps" and
    sv: "saved (snd ?run) = saved demo_world
           @ batch_files demo_env (output_dir ?args (local_rank demo_env)) 0 steps
           @ stats_files (output_dir ?args (local_rank demo_env))
               (updated demo_env (new_accumulators demo_env) steps)" and
    lim: "bs = take (nat 1) [demo_batch, demo_batch]" "pbar_total (snd ?run) = Some 1"
    by (auto simp: demo_args_def)
  from lim(1) st have "length steps = 1" by (auto dest: list_all2_lengthD)
  with sv have "length (saved (snd ?run)) = 5"
    by (simp add: batch_files_def stats_files_def demo_world_def)
  with run lim(2) show ?thesis by simp
qed

text \<open>
  A limit of 0 and a loader of two batches: both are processed and the total is 2.
\<close>

theorem limit_configured_counterexample:
  "apply_limit (demo_args (Some 0) (Some [''out''])) [demo_batch, demo_batch] =
     Inr ([demo_batch, demo_batch], 2) \<and>
   take 2 (map fst (saved (snd (eval_loop (demo_args (Some 0) (Some [''out''])) demo_env
                                  [demo_batch, demo_batch] demo_world)))) =
     [[''out'', ''rank_0'', ''batch_0.pt''], [''out'', ''rank_0'', ''batch_1.pt'']] \<and>
   pbar_total (snd (eval_loop (demo_args (Some 0) (Some [''out''])) demo_env
                      [demo_batch, demo_batch] demo_world)) = Some 2"
proof -
  let ?args = "demo_args (Some 0) (Some [''out''])"
  let ?run = "eval_loop ?args demo_env [demo_batch, demo_batch] demo_world"
  have al2: "apply_limit ?args [demo_batch, demo_batch] = Inr ([demo_batch, demo_batch], 2)"
    by (simp add: apply_limit_cases demo_args_def)
  have r2: "replicate 2 demo_batch = [demo_batch, demo_batch]"
    by (simp add: numeral_2_eq_2)
  have al: "apply_limit ?args [demo_batch, demo_batch] = Inr (replicate 2 demo_batch, 2)"
    unfolding r2 by (rule al2)
  have mk: "mkdir (fs demo_world) (output_dir ?args 0) True True =
              Inr [[''out''] \<mapsto> Dir, [''out'', ''rank_0''] \<mapsto> Dir]"
    by (simp add: output_dir_demo_out demo_world_def demo_mkdir_out)
  have u: "[0..<2] = [0, 1::nat]" by (simp add: numeral_2_eq_2)
  from demo_eval_loop[OF al mk] obtain w' where
    run: "?run = (Inr (), w')" and
    sv: "map fst (saved w') = map fst (saved demo_world)
             @ map (\<lambda>j. output_dir ?args 0 @ [batch_name j]) [0..<2]
             @ [output_dir ?args 0 @ [''first_token_stats.pt''],
                output_dir ?args 0 @ [''delta_stats.pt''],
                output_dir ?args 0 @ [''stream_stats.pt''],
                output_dir ?args 0 @ [''logit_stats.pt'']]"
    by blast
  from sv have paths: "take 2 (map fst (saved w')) =
     [[''out'', ''rank_0'', ''batch_0.pt''], [''out'', ''rank_0'', ''batch_1.pt'']]"
    unfolding u by (simp add: output_dir_demo_out demo_world_def batch_name_0 batch_name_1)
  from eval_loop_outside[OF run al2 mk[unfolded local_rank_demo[symmetric]]]
  have "pbar_total w' = Some 2" by (simp add: same_outside_def)
  with al2 run paths show ?thesis by simp
qed

section \<open>Log-probabilities\<close>

lemma length_log_softmax [simp]: "length (log_softmax x) = length x"
  by (simp add: log_softmax_def)

section \<open>Shapes of element-wise operations\<close>

lemma shape3_exp3 [simp]: "shape3 (exp3 t) = shape3 t"
  by (simp add: shape3_def exp3_def comp_def)

lemma shape3_neg3 [simp]: "shape3 (neg3 t) = shape3 t"
  by (simp add: shape3_def neg3_def comp_def)

lemma entropy_Inr:
  "entropy (exp3 lps) lps = Inr (sum_last (map2 (map2 (map2 (*))) (neg3 (exp3 lps)) lps))"
  by (simp add: entropy_def binop3_def)

section \<open>The metrics of a layer and of a batch\<close>

lemma dd_get_dd_set:
  "dd_get (dd_set bo m k v) m' = (if m' = m then (dd_get bo m)(k \<mapsto> v) else dd_get bo m')"
  by (simp add: dd_get_def dd_set_def)

text \<open>One layer of the paired iteration, when it returns: every step returned.\<close>

lemma layer_metrics_Inr:
  assumes "layer_metrics env fl fp labels bo (i, name, h) = Inr bo'"
  shows "\<exists>ll bl bce be lce le kl.
     lens_call env h i = Inr ll \<and> to_logits env h = Inr bl \<and>
     cross_entropy (flatten (maybe_shift_preds (log_softmax3 bl) 1)) (flatten labels) = Inr bce \<and>
     entropy (exp3 (log_softmax3 bl)) (log_softmax3 bl) = Inr be \<and>
     cross_entropy (flatten (maybe_shift_preds (log_softmax3 ll) 1)) (flatten labels) = Inr lce \<and>
     entropy (exp3 (log_softmax3 ll)) (log_softmax3 ll) = Inr le \<and>
     kl_div fp fl (log_softmax3 ll) = Inr kl \<and>
     bo' = dd_set (dd_set (dd_set (dd_set (dd_set bo
             ''baseline_ce'' name (T1 bce))
             ''baseline_entropy'' name (T2 be))
             ''lens_ce'' name (T1 lce))
             ''lens_entropy'' name (T2 le))
             ''lens_kl'' name (T2 kl)"
  using assms by (auto simp: layer_metrics_def Let_def and_then_Inr)

section \<open>File names\<close>

lemma digit_val_digit: "d < 10 \<Longrightarrow> digit_val (digit d) = d"
proof -
  assume "d < 10"
  then have "d \<in> {0, 1, 2, 3, 4, 5, 6, 7, 8, 9}" by auto
  then show ?thesis by (auto simp: digit_val_def digit_def)
qed

lemma nat_of_digits_snoc: "nat_of_digits (s @ [c]) = 10 * nat_of_digits s + digit_val c"
  by (simp add: nat_of_digits_def)

text \<open>Reading the rendered number gives the number back, so rendering is injective.\<close>

lemma nat_of_digits_str_nat: "nat_of_digits (str_nat n) = n"
proof (induction n rule: str_nat.induct)
  case (1 n)
  show ?case
  proof (cases "n < 10")
    case True
    then have "str_nat n = [digit n]" by (simp add: str_nat.simps)
    with True show ?thesis by (simp add: nat_of_digits_def digit_val_digit)
  next
    case False
    then have s: "str_nat n = str_nat (n div 10) @ [digit (n mod 10)]"
      by (subst str_nat.simps) simp
    from False "1.IH" have "nat_of_digits (str_nat (n div 10)) = n div 10" by simp
    then show ?thesis
      unfolding s by (simp add: nat_of_digits_snoc digit_val_digit)
  qed
qed

lemma str_nat_inj: "str_nat m = str_nat n \<Longrightarrow> m = n"
  using nat_of_digits_str_nat by metis

lemma batch_name_inj: "batch_name m = batch_name n \<Longrightarrow> m = n"
  by (simp add: batch_name_def str_nat_inj)

lemma batch_name_not_stats:
  "batch_name k \<notin> {''first_token_stats.pt'', ''delta_stats.pt'', ''stream_stats.pt'',
                      ''logit_stats.pt''}"
  by (simp add: batch_name_def)

lemma distinct_batch_paths: "distinct (map (\<lambda>k. d @ [batch_name k]) [i..<j])"
  by (simp add: distinct_map inj_on_def batch_name_inj)

section \<open>The streams handed to the accumulators\<close>

lemma stream_map_select_rest: "stream_map select_rest stream = Inr (later_positions stream)"
  by (induction stream) (auto simp: select_rest_def later_positions_def)

lemma stream_map_select_first:
  "stream_map select_first stream = Inr ft \<Longrightarrow> ft = first_positions stream"
proof (induction stream arbitrary: ft)
  case Nil
  then show ?case by (simp add: first_positions_def)
next
  case (Cons a stream)
  obtain name x where a: "a = (name, x)" by (cases a)
  from Cons.prems a obtain y ys where
    y: "select_first x = Inr y" and ys: "stream_map select_first stream = Inr ys" and
    ft: "ft = (name, y) # ys"
    by (auto split: sum.splits)
  from y have "y = T2 (map hd x)" by (auto simp: select_first_def split: if_splits)
  with Cons.IH[OF ys] ft a show ?case by (simp add: first_positions_def)
qed

lemma names_first_positions [simp]: "map fst (first_positions stream) = map fst stream"
  by (induction stream) (auto simp: first_positions_def)

lemma names_later_positions [simp]: "map fst (later_positions stream) = map fst stream"
  by (induction stream) (auto simp: later_positions_def)

section \<open>The entries of a batch's metrics\<close>

lemma layer_metrics_dom:
  assumes "layer_metrics env fl fp labels bo (i, name, h) = Inr bo'"
  shows "dom (dd_get bo' m) =
           (if m \<in> set metric_names then insert name (dom (dd_get bo m)) else dom (dd_get bo m))"
    and "dom bo' = dom bo \<union> set metric_names"
proof -
  from layer_metrics_Inr[OF assms] obtain bce be lce le kl where
    bo': "bo' = dd_set (dd_set (dd_set (dd_set (dd_set bo
             ''baseline_ce'' name (T1 bce))
             ''baseline_entropy'' name (T2 be))
             ''lens_ce'' name (T1 lce))
             ''lens_entropy'' name (T2 le))
             ''lens_kl'' name (T2 kl)"
    by blast
  show "dom (dd_get bo' m) =
           (if m \<in> set metric_names then insert name (dom (dd_get bo m)) else dom (dd_get bo m))"
    unfolding bo' by (simp add: dd_get_dd_set metric_names_def)
  show "dom bo' = dom bo \<union> set metric_names"
    unfolding bo' by (auto simp: dd_set_def metric_names_def)
qed

lemma layers_loop_dom:
  assumes "layers_loop env fl fp labels bo xs = Inr bo'"
  shows "dom (dd_get bo' m) =
           (if m \<in> set metric_names then dom (dd_get bo m) \<union> (\<lambda>(i, name, h). name) ` set xs
            else dom (dd_get bo m))"
    and "dom bo' \<subseteq> dom bo \<union> set metric_names"
  using assms
proof (induction xs arbitrary: bo)
  case Nil
  {
    case 1 then show ?case by simp
  next
    case 2 then show ?case by simp
  }
next
  case (Cons x xs)
  {
    case 1
    obtain i name h where x: "x = (i, name, h)" by (cases x)
    from 1 x obtain bo1 where
      lm: "layer_metrics env fl fp labels bo (i, name, h) = Inr bo1" and
      ll: "layers_loop env fl fp labels bo1 xs = Inr bo'"
      by (auto simp: and_then_Inr)
    from Cons.IH(1)[OF ll] layer_metrics_dom(1)[OF lm] x show ?case by auto
  next
    case 2
    obtain i name h where x: "x = (i, name, h)" by (cases x)
    from 2 x obtain bo1 where
      lm: "layer_metrics env fl fp labels bo (i, name, h) = Inr bo1" and
      ll: "layers_loop env fl fp labels bo1 xs = Inr bo'"
      by (auto simp: and_then_Inr)
    from Cons.IH(2)[OF ll] layer_metrics_dom(2)[OF lm] show ?case by auto
  }
qed

lemma paired_names:
  "(\<lambda>(i, name, h). name) ` set (zip [0..<n] stream) = fst ` set (take n stream)"
proof -
  have "(\<lambda>(i, name, h). name) ` set (zip [0..<n] stream)
          = fst ` set (map snd (zip [0..<n] stream))"
    by (auto simp: image_iff split: prod.splits) force+
  also have "map snd (zip [0..<n] stream) = take n stream"
    by (simp add: map_snd_zip_take min_def)
  finally show ?thesis .
qed

text \<open>
  The metrics of a batch: the three lens metrics have one entry per paired layer, the
  two baseline metrics have these and \<open>final\<close>, and there is no other metric.
\<close>

lemma batch_metrics_dom:
  assumes "batch_metrics env acc batch logits stream = Inr (bo, acc')"
  shows "m \<in> {''lens_ce'', ''lens_entropy'', ''lens_kl''} \<Longrightarrow>
           dom (dd_get bo m) = fst ` set (take (lens_len env) stream)"
    and "m \<in> {''baseline_ce'', ''baseline_entropy''} \<Longrightarrow>
           dom (dd_get bo m) = insert ''final'' (fst ` set (take (lens_len env) stream))"
    and "dom bo \<subseteq> set metric_names"
proof -
  from batch_metrics_Inr[OF assms] obtain ids bo0 ce h where
    ll: "layers_loop env (log_softmax3 logits) (exp3 (log_softmax3 logits)) (map (drop 1) ids)
           Map.empty (zip [0..<lens_len env] stream) = Inr bo0" and
    bo: "bo = dd_set (dd_set bo0 ''baseline_ce'' ''final'' (T1 ce))
            ''baseline_entropy'' ''final'' (T2 h)"
    by blast
  note d = layers_loop_dom[OF ll]
  have e: "dom (dd_get Map.empty m) = {}" for m by (simp add: dd_get_def)
  show "dom (dd_get bo m) = fst ` set (take (lens_len env) stream)"
    if "m \<in> {''lens_ce'', ''lens_entropy'', ''lens_kl''}"
    using that unfolding bo by (auto simp: dd_get_dd_set d(1) e paired_names metric_names_def)
  show "dom (dd_get bo m) = insert ''final'' (fst ` set (take (lens_len env) stream))"
    if "m \<in> {''baseline_ce'', ''baseline_entropy''}"
    using that unfolding bo by (auto simp: dd_get_dd_set d(1) e paired_names metric_names_def)
  show "dom bo \<subseteq> set metric_names"
    using d(2) unfolding bo by (auto simp: dd_set_def metric_names_def)
qed

section \<open>Paired layers and captured layers\<close>

text \<open>
  C10. For every batch whose metrics are computed, the paired iteration runs over
  \<open>min(len(lens), number of captured layers)\<close> layers: the three lens metrics have
  entries for exactly the names of the first that many captured layers, and the two
  baseline metrics have these and \<open>final\<close>. The accumulators are updated with the whole
  captured stream, every layer of it by name and in order: \<open>first_token_stats\<close> with
  position 0 of each layer, \<open>stream_stats\<close> with the positions from 1 on, and
  \<open>delta_stats\<close> with the residuals of the latter. A different number of layers and
  lens probes raises nothing.
\<close>

theorem paired_layers_only:
  assumes bm: "batch_metrics env acc batch logits stream = Inr (bo, acc')"
  shows "length (zip [0..<lens_len env] stream) = min (lens_len env) (length stream) \<and>
     (\<forall>m \<in> {''lens_ce'', ''lens_entropy'', ''lens_kl''}.
        dom (dd_get bo m) = fst ` set (take (min (lens_len env) (length stream)) stream)) \<and>
     (\<forall>m \<in> {''baseline_ce'', ''baseline_entropy''}.
        dom (dd_get bo m) =
          insert ''final'' (fst ` set (take (min (lens_len env) (length stream)) stream))) \<and>
     first_token_stats acc' = rs_update env (first_token_stats acc) (first_positions stream) \<and>
     delta_stats acc' = rs_update env (delta_stats acc) (residuals env (later_positions stream)) \<and>
     stream_stats acc' = rs_update env (stream_stats acc) (later_positions stream) \<and>
     map fst (first_positions stream) = map fst stream \<and>
     map fst (later_positions stream) = map fst stream"
proof -
  have t: "take (min (lens_len env) (length stream)) stream = take (lens_len env) stream"
    by (simp add: min_def)
  from batch_metrics_Inr[OF bm] obtain ft rest where
    ft: "stream_map select_first stream = Inr ft" and
    rest: "stream_map select_rest stream = Inr rest" and
    acc': "acc' = \<lparr>first_token_stats = rs_update env (first_token_stats acc) ft,
             delta_stats = rs_update env (delta_stats acc) (residuals env rest),
             stream_stats = rs_update env (stream_stats acc) rest,
             logit_stats = ls_update env (logit_stats acc) (log_softmax3 logits) True\<rparr>"
    by blast
  from ft have ft': "ft = first_positions stream" by (rule stream_map_select_first)
  from rest have rest': "rest = later_positions stream" by (simp add: stream_map_select_rest)
  have a: "first_token_stats acc' = rs_update env (first_token_stats acc) (first_positions stream)"
    and b: "delta_stats acc' = rs_update env (delta_stats acc) (residuals env (later_positions stream))"
    and c: "stream_stats acc' = rs_update env (stream_stats acc) (later_positions stream)"
    unfolding acc' ft' rest' by simp_all
  have l: "length (zip [0..<lens_len env] stream) = min (lens_len env) (length stream)"
    by simp
  from l batch_metrics_dom(1)[OF bm] batch_metrics_dom(2)[OF bm] a b c show ?thesis
    unfolding t by simp
qed

lemma lens_len_demo: "lens_len demo_env = 1"
  by (simp add: demo_env_def)

lemma demo_layer_ok:
  "\<exists>bo'. layer_metrics demo_env (log_softmax3 demo_logits) (exp3 (log_softmax3 demo_logits))
            [[1]] bo (i, name, h) = Inr bo'"
  by (simp add: demo_env_def demo_logits_def and_then_def layer_metrics_def
        log_softmax3_def exp3_def cross_entropy_def flatten_def
        maybe_shift_preds_def entropy_def kl_div_def binop3_def shape3_def neg3_def
        log_softmax_def Let_def)

lemma demo_final_ce:
  "\<exists>ce. cross_entropy (flatten (maybe_shift_preds (log_softmax3 demo_logits) 1)) (flatten [[1]])
          = Inr ce"
  by (simp add: demo_logits_def log_softmax3_def cross_entropy_def flatten_def
        maybe_shift_preds_def log_softmax_def)

lemma demo_two_layers:
  "\<exists>bo acc'. batch_metrics demo_env acc demo_batch demo_logits
                [(''layer0'', [[[1], [2]]]), (''layer1'', [[[3], [4]]])] = Inr (bo, acc')"
proof -
  let ?fl = "log_softmax3 demo_logits"
  let ?stream = "[(''layer0'', [[[1], [2]]]), (''layer1'', [[[3], [4 :: real]]])]"
  obtain bo0 where l0: "layer_metrics demo_env ?fl (exp3 ?fl) [[1]] Map.empty
                          (0, ''layer0'', [[[1], [2]]]) = Inr bo0"
    using demo_layer_ok by blast
  have z: "zip [0..<lens_len demo_env] ?stream = [(0, ''layer0'', [[[1], [2]]])]"
    by (simp add: lens_len_demo)
  have lb: "map (drop 1) [[0, 1 :: int]] = [[1]]" by simp
  have ll: "layers_loop demo_env ?fl (exp3 ?fl) (map (drop 1) [[0, 1]]) Map.empty
              (zip [0..<lens_len demo_env] ?stream) = Inr bo0"
    unfolding z lb using l0 by (simp add: and_then_def)
  obtain ce where ce: "cross_entropy (flatten (maybe_shift_preds ?fl 1))
                         (flatten (map (drop 1) [[0, 1]])) = Inr ce"
    unfolding lb using demo_final_ce by blast
  have sf: "stream_map select_first ?stream = Inr (first_positions ?stream)"
    by (simp add: select_first_def first_positions_def)
  have sr: "stream_map select_rest ?stream = Inr (later_positions ?stream)"
    by (rule stream_map_select_rest)
  have ids: "demo_batch ''input_ids'' = Some [[0, 1]]" by (simp add: demo_batch_def)
  have "\<exists>bo acc'. batch_metrics demo_env acc demo_batch demo_logits ?stream = Inr (bo, acc')"
    unfolding batch_metrics_def Let_def ids option.case and_then_def sum.case ll sf sr ce
      entropy_Inr
    by blast
  then show ?thesis .
qed

theorem paired_layers_only_witness:
  "\<exists>bo acc'.
     batch_metrics demo_env (new_accumulators demo_env) demo_batch demo_logits
       [(''layer0'', [[[1], [2]]]), (''layer1'', [[[3], [4]]])] = Inr (bo, acc') \<and>
     lens_len demo_env = 1 \<and>
     dom (dd_get bo ''lens_kl'') = {''layer0''} \<and>
     dom (dd_get bo ''baseline_ce'') = {''final'', ''layer0''} \<and>
     first_token_stats acc' =
       [[(''layer0'', T2 [[1]]), (''layer1'', T2 [[3]])]] \<and>
     stream_stats acc' =
       [[(''layer0'', T3 [[[2]]]), (''layer1'', T3 [[[4]]])]]"
proof -
  let ?stream = "[(''layer0'', [[[1], [2]]]), (''layer1'', [[[3], [4 :: real]]])]"
  obtain bo acc' where bm:
    "batch_metrics demo_env (new_accumulators demo_env) demo_batch demo_logits ?stream
       = Inr (bo, acc')"
    using demo_two_layers by blast
  have n: "lens_len demo_env = 1" by (simp add: demo_env_def)
  note p = paired_layers_only[OF bm]
  from p have kl: "\<forall>m \<in> {''lens_ce'', ''lens_entropy'', ''lens_kl''}.
        dom (dd_get bo m) = fst ` set (take (min (lens_len demo_env) (length ?stream)) ?stream)"
    by (elim conjE)
  from p have ce: "\<forall>m \<in> {''baseline_ce'', ''baseline_entropy''}.
        dom (dd_get bo m) =
          insert ''final'' (fst ` set (take (min (lens_len demo_env) (length ?stream)) ?stream))"
    by (elim conjE)
  from p have ft: "first_token_stats acc' =
        rs_update demo_env (first_token_stats (new_accumulators demo_env)) (first_positions ?stream)"
    by (elim conjE)
  from p have ss: "stream_stats acc' =
        rs_update demo_env (stream_stats (new_accumulators demo_env)) (later_positions ?stream)"
    by (elim conjE)
  from kl have "dom (dd_get bo ''lens_kl'') = fst ` set (take (min (lens_len demo_env) (length ?stream)) ?stream)"
    by (rule bspec) simp
  then have c1: "dom (dd_get bo ''lens_kl'') = {''layer0''}" by (simp add: n)
  from ce have "dom (dd_get bo ''baseline_ce'') =
          insert ''final'' (fst ` set (take (min (lens_len demo_env) (length ?stream)) ?stream))"
    by (rule bspec) simp
  then have c2: "dom (dd_get bo ''baseline_ce'') = {''final'', ''layer0''}" by (simp add: n)
  from ft have c3: "first_token_stats acc' =
       [[(''layer0'', T2 [[1]]), (''layer1'', T2 [[3]])]]"
    by (simp add: demo_env_def new_accumulators_def first_positions_def)
  from ss have c4: "stream_stats acc' =
       [[(''layer0'', T3 [[[2]]]), (''layer1'', T3 [[[4]]])]]"
    by (simp add: demo_env_def new_accumulators_def later_positions_def)
  show ?thesis
  proof (intro exI conjI)
    show "batch_metrics demo_env (new_accumulators demo_env) demo_batch demo_logits ?stream
            = Inr (bo, acc')" by (rule bm)
  qed (rule n c1 c2 c3 c4)+
qed

section \<open>The files of a run\<close>

lemma processed_streams:
  assumes "processed env b ((logits, stream), bo, ft, rest)"
  shows "model env b = Inr (logits, stream)"
    and "ft = first_positions stream" and "rest = later_positions stream"
    and "\<exists>acc acc'. batch_metrics env acc b logits stream = Inr (bo, acc')"
  using assms
  by (auto simp: processed_def stream_map_select_rest dest: stream_map_select_first)

lemma length_batch_files [simp]: "length (batch_files env d k steps) = length steps"
  by (simp add: batch_files_def)

lemma length_stats_files [simp]: "length (stats_files d acc) = 4"
  by (simp add: stats_files_def)

lemma apply_limit_length:
  "apply_limit args dl = Inr (bs, t) \<Longrightarrow> length bs \<le> length dl"
  by (auto simp: apply_limit_cases split: option.splits if_splits)

lemma batch_files_counted:
  assumes "\<forall>j < k + length steps. pbar_n env j = j"
  shows "batch_files env d k steps =
           map (\<lambda>(j, (out, bo, ft, rest)). (d @ [batch_name j], BatchOutput bo))
             (zip [k..<k + length steps] steps)"
  unfolding batch_files_def
proof (rule map_cong[OF refl])
  fix x
  assume x: "x \<in> set (zip [k..<k + length steps] steps)"
  obtain j out bo ft rest where xe: "x = (j, (out, bo, ft, rest))" by (cases x) auto
  from x xe have "j \<in> set [k..<k + length steps]" by (auto dest: set_zip_leftD)
  then have "j < k + length steps" by simp
  with assms have "pbar_n env j = j" by simp
  with xe show "(case x of (j, (out, bo, ft, rest)) \<Rightarrow>
                   (d @ [batch_name (pbar_n env j)], BatchOutput bo)) =
                (case x of (j, (out, bo, ft, rest)) \<Rightarrow> (d @ [batch_name j], BatchOutput bo))"
    by simp
qed

lemma map_fst_zip_apply:
  "length a = length b \<Longrightarrow> map (\<lambda>x. g (fst x)) (zip a b) = map g a"
  by (induction a b rule: list_induct2) simp_all

lemma names_batch_files:
  "map fst (map (\<lambda>(j, (out, bo, ft, rest)). (d @ [batch_name j], BatchOutput bo))
              (zip [k..<k + length steps] steps)) =
   map (\<lambda>j. d @ [batch_name j]) [k..<k + length steps]"
  using map_fst_zip_apply[of "[k..<k + length steps]" steps "\<lambda>j. d @ [batch_name j]"]
  by (simp add: case_prod_beta comp_def)

lemma batch_name_stats:
  "batch_name k \<noteq> ''first_token_stats.pt''" "''first_token_stats.pt'' \<noteq> batch_name k"
  "batch_name k \<noteq> ''delta_stats.pt''" "''delta_stats.pt'' \<noteq> batch_name k"
  "batch_name k \<noteq> ''stream_stats.pt''" "''stream_stats.pt'' \<noteq> batch_name k"
  "batch_name k \<noteq> ''logit_stats.pt''" "''logit_stats.pt'' \<noteq> batch_name k"
  by (simp_all add: batch_name_def)

text \<open>
  Were the counter of the progress display to read \<open>k\<close> while the body of iteration
  \<open>k\<close> runs, a run that processes \<open>T\<close> batches and returns would write, before the
  four accumulator files, exactly the files \<open>batch_0.pt\<close>, ..., \<open>batch_(T-1).pt\<close> in
  this order, all paths different. Whatever the counter reads, the \<open>k\<close>-th save holds
  the metrics of the \<open>k\<close>-th processed batch: no metric beyond the five names, the
  three lens metrics mapping the names of the paired layers, the two baseline metrics
  these and \<open>final\<close>.
\<close>

lemma counted_run_batch_files:
  assumes run: "eval_loop args env dl w = (Inr u, w')"
    and counter: "\<forall>k < length dl. pbar_n env k = k"
  shows "\<exists>bs t steps.
     apply_limit args dl = Inr (bs, t) \<and> list_all2 (processed env) bs steps \<and>
     length (saved w') = length (saved w) + length bs + 4 \<and>
     take (length bs) (drop (length (saved w)) (saved w')) =
       map (\<lambda>(k, (out, bo, first_tokens, rest)).
              (output_dir args (local_rank env) @ [batch_name k], BatchOutput bo))
         (zip [0..<length bs] steps) \<and>
     map fst (take (length bs) (drop (length (saved w)) (saved w'))) =
       map (\<lambda>k. output_dir args (local_rank env) @ [batch_name k]) [0..<length bs] \<and>
     distinct (map fst (drop (length (saved w)) (saved w'))) \<and>
     (\<forall>((logits, stream), bo, first_tokens, rest) \<in> set steps.
        dom bo \<subseteq> set metric_names \<and>
        (\<forall>m \<in> {''lens_ce'', ''lens_entropy'', ''lens_kl''}.
           dom (dd_get bo m) = fst ` set (take (lens_len env) stream)) \<and>
        (\<forall>m \<in> {''baseline_ce'', ''baseline_entropy''}.
           dom (dd_get bo m) = insert ''final'' (fst ` set (take (lens_len env) stream))))"
proof -
  let ?d = "output_dir args (local_rank env)"
  from eval_loop_Inr[OF run] obtain bs t f1 steps where
    al: "apply_limit args dl = Inr (bs, t)" and
    st: "list_all2 (processed env) bs steps" and
    sv: "saved w' = saved w @ batch_files env ?d 0 steps
           @ stats_files ?d (updated env (new_accumulators env) steps)"
    by blast
  from st have len: "length steps = length bs" by (simp add: list_all2_lengthD)
  from apply_limit_length[OF al] len counter
  have "\<forall>j < 0 + length steps. pbar_n env j = j" by simp
  from batch_files_counted[OF this]
  have bf: "batch_files env ?d 0 steps =
           map (\<lambda>(j, (out, bo, ft, rest)). (?d @ [batch_name j], BatchOutput bo))
             (zip [0..<length bs] steps)"
    by (simp add: len)
  have c1: "length (saved w') = length (saved w) + length bs + 4"
    unfolding sv by (simp add: len)
  have dr: "drop (length (saved w)) (saved w') =
              batch_files env ?d 0 steps @ stats_files ?d (updated env (new_accumulators env) steps)"
    unfolding sv by simp
  have c2: "take (length bs) (drop (length (saved w)) (saved w')) =
       map (\<lambda>(k, (out, bo, first_tokens, rest)). (?d @ [batch_name k], BatchOutput bo))
         (zip [0..<length bs] steps)"
    unfolding dr using bf by (simp add: len)
  have nm: "map fst (batch_files env ?d 0 steps) = map (\<lambda>k. ?d @ [batch_name k]) [0..<length bs]"
    unfolding bf using names_batch_files[of ?d 0 steps] by (simp add: len)
  have c3: "map fst (take (length bs) (drop (length (saved w)) (saved w'))) =
       map (\<lambda>k. ?d @ [batch_name k]) [0..<length bs]"
    unfolding dr using nm by (simp add: len)
  have c4: "distinct (map fst (drop (length (saved w)) (saved w')))"
    unfolding dr
    by (auto simp: nm distinct_batch_paths stats_files_def batch_name_stats)
  have c5: "\<forall>((logits, stream), bo, first_tokens, rest) \<in> set steps.
        dom bo \<subseteq> set metric_names \<and>
        (\<forall>m \<in> {''lens_ce'', ''lens_entropy'', ''lens_kl''}.
           dom (dd_get bo m) = fst ` set (take (lens_len env) stream)) \<and>
        (\<forall>m \<in> {''baseline_ce'', ''baseline_entropy''}.
           dom (dd_get bo m) = insert ''final'' (fst ` set (take (lens_len env) stream)))"
  proof (rule ballI)
    fix s assume s: "s \<in> set steps"
    obtain lg sm b0 f0 r0 where se: "s = ((lg, sm), b0, f0, r0)"
      by (cases s) auto
    from s obtain i where i: "i < length steps" "steps ! i = s"
      by (auto simp: in_set_conv_nth)
    with st se have "processed env (bs ! i) ((lg, sm), b0, f0, r0)"
      by (auto dest: list_all2_nthD2)
    from processed_streams(4)[OF this] obtain acc acc' where
      bm: "batch_metrics env acc (bs ! i) lg sm = Inr (b0, acc')"
      by blast
    note d = batch_metrics_dom[OF bm]
    have body: "dom b0 \<subseteq> set metric_names \<and>
        (\<forall>m \<in> {''lens_ce'', ''lens_entropy'', ''lens_kl''}.
           dom (dd_get b0 m) = fst ` set (take (lens_len env) sm)) \<and>
        (\<forall>m \<in> {''baseline_ce'', ''baseline_entropy''}.
           dom (dd_get b0 m) = insert ''final'' (fst ` set (take (lens_len env) sm)))"
    proof (intro conjI ballI)
      show "dom b0 \<subseteq> set metric_names" by (rule d(3))
    qed (erule d(1), erule d(2))
    show "(\<lambda>((logits, stream), bo, first_tokens, rest).
        dom bo \<subseteq> set metric_names \<and>
        (\<forall>m \<in> {''lens_ce'', ''lens_entropy'', ''lens_kl''}.
           dom (dd_get bo m) = fst ` set (take (lens_len env) stream)) \<and>
        (\<forall>m \<in> {''baseline_ce'', ''baseline_entropy''}.
           dom (dd_get bo m) = insert ''final'' (fst ` set (take (lens_len env) stream)))) s"
      unfolding se prod.case by (rule body)
  qed
  from al st c1 c2 c3 c4 c5 show ?thesis by blast
qed

subsection \<open>A display that has not refreshed\<close>

lemma local_rank_lagging: "local_rank lagging_env = 0"
  by (simp add: local_rank_def lagging_env_def demo_env_def)

lemma pbar_n_lagging: "pbar_n lagging_env k = 0"
  by (simp add: lagging_env_def)

lemma save_error_lagging: "save_error lagging_env p = None"
  by (simp add: lagging_env_def demo_env_def)

lemma lagging_batch_metrics:
  "\<exists>bo acc'. batch_metrics lagging_env acc demo_batch demo_logits demo_stream = Inr (bo, acc')"
  by (simp add: batch_metrics_def lagging_env_def demo_env_def demo_batch_def demo_logits_def
        demo_stream_def and_then_def layer_metrics_def log_softmax3_def exp3_def
        cross_entropy_def flatten_def maybe_shift_preds_def entropy_def kl_div_def binop3_def
        shape3_def neg3_def select_first_def select_rest_def log_softmax_def Let_def)

lemma lagging_batch_body:
  "\<exists>bo acc'. batch_body lagging_env r d k acc demo_batch w =
     (Inr acc', w\<lparr>fs := (fs w)(d @ [batch_name 0] \<mapsto> File (BatchOutput bo)),
                 saved := saved w @ [(d @ [batch_name 0], BatchOutput bo)]\<rparr>)"
proof -
  obtain bo acc' where
    "batch_metrics lagging_env acc demo_batch demo_logits demo_stream = Inr (bo, acc')"
    using lagging_batch_metrics by blast
  then have "batch_body lagging_env r d k acc demo_batch w =
     (Inr acc', w\<lparr>fs := (fs w)(d @ [batch_name 0] \<mapsto> File (BatchOutput bo)),
                 saved := saved w @ [(d @ [batch_name 0], BatchOutput bo)]\<rparr>)"
    by (simp add: batch_body_cases) (simp add: lagging_env_def demo_env_def)
  then show ?thesis by blast
qed

lemma lagging_batches_loop:
  "\<exists>acc' w'. batches_loop lagging_env r d k acc (replicate n demo_batch) w = (Inr acc', w') \<and>
      map fst (saved w') = map fst (saved w) @ replicate n (d @ [batch_name 0])"
proof (induction n arbitrary: k acc w)
  case 0
  then show ?case by simp
next
  case (Suc n)
  obtain bo acc1 where
    bb: "batch_body lagging_env r d k acc demo_batch w =
           (Inr acc1, w\<lparr>fs := (fs w)(d @ [batch_name 0] \<mapsto> File (BatchOutput bo)),
                        saved := saved w @ [(d @ [batch_name 0], BatchOutput bo)]\<rparr>)"
    using lagging_batch_body by blast
  let ?w1 = "w\<lparr>fs := (fs w)(d @ [batch_name 0] \<mapsto> File (BatchOutput bo)),
               saved := saved w @ [(d @ [batch_name 0], BatchOutput bo)]\<rparr>"
  from Suc.IH[of "Suc k" acc1 ?w1] obtain acc' w' where
    l: "batches_loop lagging_env r d (Suc k) acc1 (replicate n demo_batch) ?w1 = (Inr acc', w')" and
    s: "map fst (saved w') = map fst (saved ?w1) @ replicate n (d @ [batch_name 0])"
    by blast
  have "batches_loop lagging_env r d k acc (replicate (Suc n) demo_batch) w = (Inr acc', w')"
    using bb l by simp
  moreover have "map fst (saved w') =
      map fst (saved w) @ replicate (Suc n) (d @ [batch_name 0])"
    using s by simp
  ultimately show ?case by blast
qed

lemma lagging_save_stats:
  "\<exists>w'. save_stats lagging_env d acc w = (Inr (), w') \<and> saved w' = saved w @ stats_files d acc"
  by (simp add: save_stats_def th_save_def save_error_lagging stats_files_def)

lemma lagging_eval_loop:
  assumes al: "apply_limit args dl = Inr (replicate n demo_batch, t)"
    and mk: "mkdir (fs w) (output_dir args 0) True True = Inr f1"
  shows "\<exists>w'. eval_loop args lagging_env dl w = (Inr (), w') \<and>
           map fst (saved w') = map fst (saved w)
             @ replicate n (output_dir args 0 @ [batch_name 0])
             @ [output_dir args 0 @ [''first_token_stats.pt''],
                output_dir args 0 @ [''delta_stats.pt''],
                output_dir args 0 @ [''stream_stats.pt''],
                output_dir args 0 @ [''logit_stats.pt'']]"
proof -
  let ?d = "output_dir args 0"
  let ?w1 = "w\<lparr>fs := f1, pbar_total := Some t\<rparr>"
  from lagging_batches_loop[of 0 ?d 0 "new_accumulators lagging_env" n ?w1] obtain acc w2 where
    l: "batches_loop lagging_env 0 ?d 0 (new_accumulators lagging_env) (replicate n demo_batch) ?w1
          = (Inr acc, w2)" and
    s: "map fst (saved w2) = map fst (saved w) @ replicate n (?d @ [batch_name 0])"
    by auto
  from lagging_save_stats[of ?d acc w2] obtain w' where
    ss: "save_stats lagging_env ?d acc w2 = (Inr (), w')" and
    s': "saved w' = saved w2 @ stats_files ?d acc"
    by blast
  have "eval_loop args lagging_env dl w = (Inr (), w')"
    using al mk l ss by (simp add: eval_loop_def local_rank_lagging)
  moreover have "map fst (saved w') = map fst (saved w)
             @ replicate n (?d @ [batch_name 0])
             @ [?d @ [''first_token_stats.pt''], ?d @ [''delta_stats.pt''],
                ?d @ [''stream_stats.pt''], ?d @ [''logit_stats.pt'']]"
    using s s' by (simp add: stats_files_def)
  ultimately show ?thesis by blast
qed

text \<open>
  C4. The file of a batch is named after the counter of the progress display as it
  reads when the batch is saved (line 99), not after the number of the iteration. With
  a display that has not refreshed between two iterations, a run over two batches
  returns normally and has saved both batches to \<open>batch_0.pt\<close>: the names collide, the
  second save replaces the first, and no \<open>batch_1.pt\<close> is written.
\<close>

theorem batch_files_collide:
  "fst (eval_loop (demo_args None (Some [''out''])) lagging_env [demo_batch, demo_batch]
         demo_world) = Inr () \<and>
   map fst (saved (snd (eval_loop (demo_args None (Some [''out''])) lagging_env
                          [demo_batch, demo_batch] demo_world))) =
     [[''out'', ''rank_0'', ''batch_0.pt''],
      [''out'', ''rank_0'', ''batch_0.pt''],
      [''out'', ''rank_0'', ''first_token_stats.pt''],
      [''out'', ''rank_0'', ''delta_stats.pt''],
      [''out'', ''rank_0'', ''stream_stats.pt''],
      [''out'', ''rank_0'', ''logit_stats.pt'']] \<and>
   [''out'', ''rank_0'', ''batch_1.pt''] \<notin>
     set (map fst (saved (snd (eval_loop (demo_args None (Some [''out''])) lagging_env
                                 [demo_batch, demo_batch] demo_world))))"
proof -
  let ?args = "demo_args None (Some [''out''])"
  let ?dl = "[demo_batch, demo_batch]"
  let ?run = "eval_loop ?args lagging_env ?dl demo_world"
  have al2: "apply_limit ?args ?dl = Inr (?dl, 2)"
    by (simp add: apply_limit_cases demo_args_def)
  have r2: "replicate 2 demo_batch = ?dl" by (simp add: numeral_2_eq_2)
  have al: "apply_limit ?args ?dl = Inr (replicate 2 demo_batch, 2)"
    unfolding r2 by (rule al2)
  have mk: "mkdir (fs demo_world) (output_dir ?args 0) True True =
              Inr [[''out''] \<mapsto> Dir, [''out'', ''rank_0''] \<mapsto> Dir]"
    by (simp add: output_dir_demo_out demo_world_def demo_mkdir_out)
  from lagging_eval_loop[OF al mk] obtain w' where
    run: "?run = (Inr (), w')" and
    sv: "map fst (saved w') = map fst (saved demo_world)
             @ replicate 2 (output_dir ?args 0 @ [batch_name 0])
             @ [output_dir ?args 0 @ [''first_token_stats.pt''],
                output_dir ?args 0 @ [''delta_stats.pt''],
                output_dir ?args 0 @ [''stream_stats.pt''],
                output_dir ?args 0 @ [''logit_stats.pt'']]"
    by blast
  from sv have all: "map fst (saved w') =
     [[''out'', ''rank_0'', ''batch_0.pt''],
      [''out'', ''rank_0'', ''batch_0.pt''],
      [''out'', ''rank_0'', ''first_token_stats.pt''],
      [''out'', ''rank_0'', ''delta_stats.pt''],
      [''out'', ''rank_0'', ''stream_stats.pt''],
      [''out'', ''rank_0'', ''logit_stats.pt'']]"
    by (simp add: output_dir_demo_out demo_world_def batch_name_0 numeral_2_eq_2)
  have none: "[''out'', ''rank_0'', ''batch_1.pt''] \<notin> set (map fst (saved w'))"
    unfolding all by simp
  from run have f: "fst ?run = Inr ()" and s: "snd ?run = w'" by simp_all
  show ?thesis
    unfolding s by (intro conjI) (rule f[unfolded s] all none)+
qed

section \<open>The accumulator files\<close>

lemma updated_outs:
  assumes "list_all2 (processed env) bs steps"
  shows "list_all2 (\<lambda>b out. model env b = Inr out) bs (map fst steps)"
    and "map (\<lambda>(out, bo, ft, rest). ft) steps =
           map (\<lambda>(logits, stream). first_positions stream) (map fst steps)"
    and "map (\<lambda>(out, bo, ft, rest). residuals env rest) steps =
           map (\<lambda>(logits, stream). residuals env (later_positions stream)) (map fst steps)"
    and "map (\<lambda>(out, bo, ft, rest). rest) steps =
           map (\<lambda>(logits, stream). later_positions stream) (map fst steps)"
    and "map (\<lambda>((logits, stream), bo, ft, rest). log_softmax3 logits) steps =
           map (\<lambda>(logits, stream). log_softmax3 logits) (map fst steps)"
  using assms
proof (induction bs steps rule: list_all2_induct)
  case Nil
  {
    case 1 show ?case by simp
  next
    case 2 show ?case by simp
  next
    case 3 show ?case by simp
  next
    case 4 show ?case by simp
  next
    case 5 show ?case by simp
  }
next
  case (Cons b bs s steps)
  obtain lg sm bo ft rest where s: "s = ((lg, sm), bo, ft, rest)" by (cases s) auto
  from Cons.hyps(1) s have p: "processed env b ((lg, sm), bo, ft, rest)" by simp
  note q = processed_streams[OF p]
  {
    case 1 from q(1) Cons.IH(1) s show ?case by simp
  next
    case 2 from q(2) Cons.IH(2) s show ?case by simp
  next
    case 3 from q(3) Cons.IH(3) s show ?case by simp
  next
    case 4 from q(3) Cons.IH(4) s show ?case by simp
  next
    case 5 from Cons.IH(5) s show ?case by simp
  }
qed

text \<open>
  C8. A run that completes the batch loop and returns has written, after the batch
  files and in this order, exactly the four files \<open>first_token_stats.pt\<close>,
  \<open>delta_stats.pt\<close>, \<open>stream_stats.pt\<close> and \<open>logit_stats.pt\<close> of the output directory.
  Each holds its accumulator as constructed and then updated once per processed batch,
  in processing order: \<open>first_token_stats\<close> with position 0 of every captured layer,
  \<open>delta_stats\<close> with what the stream's \<open>residuals\<close> operation gives on the positions
  from 1 on, \<open>stream_stats\<close> with these positions themselves, and \<open>logit_stats\<close> with the
  final log-probabilities and \<open>assume_normalized=True\<close>.
\<close>

theorem accumulator_files:
  assumes run: "eval_loop args env dl w = (Inr u, w')"
  shows "\<exists>bs t outs.
     apply_limit args dl = Inr (bs, t) \<and>
     list_all2 (\<lambda>b out. model env b = Inr out) bs outs \<and>
     drop (length (saved w) + length bs) (saved w') =
       [(output_dir args (local_rank env) @ [''first_token_stats.pt''],
         ResidualStatsObj (foldl (rs_update env) (residual_stats_new env)
            (map (\<lambda>(logits, stream). first_positions stream) outs))),
        (output_dir args (local_rank env) @ [''delta_stats.pt''],
         ResidualStatsObj (foldl (rs_update env) (residual_stats_new env)
            (map (\<lambda>(logits, stream). residuals env (later_positions stream)) outs))),
        (output_dir args (local_rank env) @ [''stream_stats.pt''],
         ResidualStatsObj (foldl (rs_update env) (residual_stats_new env)
            (map (\<lambda>(logits, stream). later_positions stream) outs))),
        (output_dir args (local_rank env) @ [''logit_stats.pt''],
         LogitStatsObj (foldl (\<lambda>a lps. ls_update env a lps True) (logit_stats_new env)
            (map (\<lambda>(logits, stream). log_softmax3 logits) outs)))]"
proof -
  let ?d = "output_dir args (local_rank env)"
  from eval_loop_Inr[OF run] obtain bs t f1 steps where
    al: "apply_limit args dl = Inr (bs, t)" and
    st: "list_all2 (processed env) bs steps" and
    sv: "saved w' = saved w @ batch_files env ?d 0 steps
           @ stats_files ?d (updated env (new_accumulators env) steps)"
    by blast
  from st have len: "length steps = length bs" by (simp add: list_all2_lengthD)
  note o = updated_outs[OF st]
  have dr: "drop (length (saved w) + length bs) (saved w') =
              stats_files ?d (updated env (new_accumulators env) steps)"
    unfolding sv by (simp add: len)
  have files: "stats_files ?d (updated env (new_accumulators env) steps) =
       [(?d @ [''first_token_stats.pt''],
         ResidualStatsObj (foldl (rs_update env) (residual_stats_new env)
            (map (\<lambda>(logits, stream). first_positions stream) (map fst steps)))),
        (?d @ [''delta_stats.pt''],
         ResidualStatsObj (foldl (rs_update env) (residual_stats_new env)
            (map (\<lambda>(logits, stream). residuals env (later_positions stream)) (map fst steps)))),
        (?d @ [''stream_stats.pt''],
         ResidualStatsObj (foldl (rs_update env) (residual_stats_new env)
            (map (\<lambda>(logits, stream). later_positions stream) (map fst steps)))),
        (?d @ [''logit_stats.pt''],
         LogitStatsObj (foldl (\<lambda>a lps. ls_update env a lps True) (logit_stats_new env)
            (map (\<lambda>(logits, stream). log_softmax3 logits) (map fst steps))))]"
    unfolding stats_files_def updated_def o(2) o(3) o(4) o(5)
    by (simp add: new_accumulators_def)
  show ?thesis
    by (intro exI conjI) (rule al o(1) dr[unfolded files])+
qed

theorem accumulator_files_witness:
  "fst (eval_loop (demo_args None (Some [''out''])) demo_env [demo_batch] demo_world) = Inr () \<and>
   drop 1 (saved (snd (eval_loop (demo_args None (Some [''out''])) demo_env
                          [demo_batch] demo_world))) =
     [([''out'', ''rank_0'', ''first_token_stats.pt''],
       ResidualStatsObj [[(''layer0'', T2 [[1]])]]),
      ([''out'', ''rank_0'', ''delta_stats.pt''],
       ResidualStatsObj [[(''layer0'', T3 [[[2]]])]]),
      ([''out'', ''rank_0'', ''stream_stats.pt''],
       ResidualStatsObj [[(''layer0'', T3 [[[2]]])]]),
      ([''out'', ''rank_0'', ''logit_stats.pt''],
       LogitStatsObj [(log_softmax3 demo_logits, True)])]"
proof -
  let ?args = "demo_args None (Some [''out''])"
  let ?run = "eval_loop ?args demo_env [demo_batch] demo_world"
  have al1: "apply_limit ?args [demo_batch] = Inr ([demo_batch], 1)"
    by (simp add: apply_limit_cases demo_args_def)
  have al: "apply_limit ?args [demo_batch] = Inr (replicate 1 demo_batch, 1)"
    using al1 by simp
  have mk: "mkdir (fs demo_world) (output_dir ?args 0) True True =
              Inr [[''out''] \<mapsto> Dir, [''out'', ''rank_0''] \<mapsto> Dir]"
    by (simp add: output_dir_demo_out demo_world_def demo_mkdir_out)
  from demo_eval_loop[OF al mk] obtain w' where run: "?run = (Inr (), w')" by blast
  from accumulator_files[OF run] obtain bs t outs where
    al': "apply_limit ?args [demo_batch] = Inr (bs, t)" and
    mo: "list_all2 (\<lambda>b out. model demo_env b = Inr out) bs outs" and
    dr: "drop (length (saved demo_world) + length bs) (saved w') =
       [(output_dir ?args (local_rank demo_env) @ [''first_token_stats.pt''],
         ResidualStatsObj (foldl (rs_update demo_env) (residual_stats_new demo_env)
            (map (\<lambda>(logits, stream). first_positions stream) outs))),
        (output_dir ?args (local_rank demo_env) @ [''delta_stats.pt''],
         ResidualStatsObj (foldl (rs_update demo_env) (residual_stats_new demo_env)
            (map (\<lambda>(logits, stream). residuals demo_env (later_positions stream)) outs))),
        (output_dir ?args (local_rank demo_env) @ [''stream_stats.pt''],
         ResidualStatsObj (foldl (rs_update demo_env) (residual_stats_new demo_env)
            (map (\<lambda>(logits, stream). later_positions stream) outs))),
        (output_dir ?args (local_rank demo_env) @ [''logit_stats.pt''],
         LogitStatsObj (foldl (\<lambda>a lps. ls_update demo_env a lps True) (logit_stats_new demo_env)
            (map (\<lambda>(logits, stream). log_softmax3 logits) outs)))]"
    by (elim exE conjE)
  from al' al1 have bs: "bs = [demo_batch]" by simp
  from mo bs obtain out where outs: "outs = [out]" and m: "model demo_env demo_batch = Inr out"
    by (auto simp: list_all2_Cons1)
  from m have out: "out = (demo_logits, demo_stream)" by (simp add: demo_env_def)
  have c: "drop 1 (saved w') =
     [([''out'', ''rank_0'', ''first_token_stats.pt''],
       ResidualStatsObj [[(''layer0'', T2 [[1]])]]),
      ([''out'', ''rank_0'', ''delta_stats.pt''],
       ResidualStatsObj [[(''layer0'', T3 [[[2]]])]]),
      ([''out'', ''rank_0'', ''stream_stats.pt''],
       ResidualStatsObj [[(''layer0'', T3 [[[2]]])]]),
      ([''out'', ''rank_0'', ''logit_stats.pt''],
       LogitStatsObj [(log_softmax3 demo_logits, True)])]"
    using dr[unfolded bs outs out local_rank_demo output_dir_demo_out]
    by (simp add: demo_world_def demo_env_def demo_stream_def first_positions_def
          later_positions_def)
  from run have f: "fst ?run = Inr ()" and s: "snd ?run = w'" by simp_all
  show ?thesis unfolding s by (intro conjI) (rule f[unfolded s] c)+
qed

section \<open>Exceptions and the capture scope\<close>

lemma batches_loop_append:
  "batches_loop env r d k acc (pre @ post) w =
     (case batches_loop env r d k acc pre w of
        (Inl e, w1) \<Rightarrow> (Inl e, w1)
      | (Inr a, w1) \<Rightarrow> batches_loop env r d (k + length pre) a post w1)"
proof (induction pre arbitrary: k acc w)
  case Nil
  then show ?case by simp
next
  case (Cons b pre)
  show ?case
  proof (cases "batch_body env r d k acc b w")
    case (Pair res w1)
    show ?thesis
    proof (cases res)
      case (Inl e)
      with Pair show ?thesis by simp
    next
      case (Inr a)
      have e: "k + length (b # pre) = Suc k + length pre" by simp
      from Inr Pair Cons.IH[of "Suc k" a w1] show ?thesis unfolding e by simp
    qed
  qed
qed

text \<open>Whatever the outcome of a run, the hooks on the model are as before the run.\<close>

lemma eval_loop_hooks:
  assumes run: "eval_loop args env dl w = (res, w')"
  shows "hooks w' = hooks w"
proof (cases "apply_limit args dl")
  case (Inl e)
  with run show ?thesis by (simp add: eval_loop_def)
next
  case (Inr bt)
  obtain bs t where bt: "bt = (bs, t)" by (cases bt)
  with Inr have al: "apply_limit args dl = Inr (bs, t)" by simp
  show ?thesis
  proof (cases "mkdir (fs w) (output_dir args (local_rank env)) True True")
    case (Inl e)
    with al run show ?thesis by (simp add: eval_loop_def)
  next
    case (Inr f1)
    from eval_loop_outside[OF run al Inr] show ?thesis by (simp add: same_outside_def)
  qed
qed

text \<open>The three ways the body of the loop raises; none of them changes the world.\<close>

lemma batch_body_raises:
  assumes "model env b = Inl e \<or>
           (\<exists>lg sm. model env b = Inr (lg, sm) \<and>
              (batch_metrics env acc b lg sm = Inl e \<or>
               (\<exists>bo acc'. batch_metrics env acc b lg sm = Inr (bo, acc') \<and>
                  save_error env (d @ [batch_name (pbar_n env k)]) = Some e)))"
  shows "batch_body env r d k acc b w = (Inl e, w)"
  using assms
proof (elim disjE exE conjE)
  assume "model env b = Inl e"
  then show ?thesis by (simp add: batch_body_cases)
next
  fix lg sm
  assume "model env b = Inr (lg, sm)" "batch_metrics env acc b lg sm = Inl e"
  then show ?thesis by (simp add: batch_body_cases)
next
  fix lg sm bo acc'
  assume "model env b = Inr (lg, sm)" "batch_metrics env acc b lg sm = Inr (bo, acc')"
    "save_error env (d @ [batch_name (pbar_n env k)]) = Some e"
  then show ?thesis by (simp add: batch_body_cases)
qed

text \<open>
  C9. On the capture as the spec describes it: leaving the scope removes the hooks
  that entering it registered, and hands on the outcome of the forward pass, whether
  that outcome is a result or an exception; after a run the hooks on the model are as
  before it, whatever the outcome of the run. An exception raised in iteration \<open>k\<close> by
  the forward pass, by the computation of the metrics or by saving the batch file is
  the outcome of \<open>eval_loop\<close>: the world is as the completed iterations left it, the
  batch is not tried again, the remaining batches are not processed and no accumulator
  file is written. An exception raised by saving an accumulator file is the outcome
  of \<open>eval_loop\<close> as well.
\<close>

theorem capture_released_exceptions_propagate:
  "hooks (snd (record_residual_stream env b w)) = hooks w \<and>
   fst (record_residual_stream env b w) = model env b \<and>
   (eval_loop args env dl w = (res, w') \<longrightarrow> hooks w' = hooks w) \<and>
   (apply_limit args dl = Inr (pre @ b # post, t) \<and>
    mkdir (fs w) (output_dir args (local_rank env)) True True = Inr f1 \<and>
    batches_loop env (local_rank env) (output_dir args (local_rank env)) 0
      (new_accumulators env) pre (w\<lparr>fs := f1, pbar_total := Some t\<rparr>) = (Inr acc, w2) \<and>
    (model env b = Inl e \<or>
     (\<exists>lg sm. model env b = Inr (lg, sm) \<and>
        (batch_metrics env acc b lg sm = Inl e \<or>
         (\<exists>bo acc'. batch_metrics env acc b lg sm = Inr (bo, acc') \<and>
            save_error env
              (output_dir args (local_rank env) @ [batch_name (pbar_n env (length pre))])
              = Some e))))
    \<longrightarrow> eval_loop args env dl w = (Inl e, w2)) \<and>
   (apply_limit args dl = Inr (bs, t) \<and>
    mkdir (fs w) (output_dir args (local_rank env)) True True = Inr f1 \<and>
    batches_loop env (local_rank env) (output_dir args (local_rank env)) 0
      (new_accumulators env) bs (w\<lparr>fs := f1, pbar_total := Some t\<rparr>) = (Inr acc, w2) \<and>
    save_stats env (output_dir args (local_rank env)) acc w2 = (Inl e, w3)
    \<longrightarrow> eval_loop args env dl w = (Inl e, w3))"
proof (intro conjI impI)
  show "hooks (snd (record_residual_stream env b w)) = hooks w"
    by (simp add: record_residual_stream_def Let_def)
  show "fst (record_residual_stream env b w) = model env b"
    by (simp add: record_residual_stream_def Let_def)
  show "hooks w' = hooks w" if "eval_loop args env dl w = (res, w')"
    using that by (rule eval_loop_hooks)
next
  let ?d = "output_dir args (local_rank env)"
  let ?w1 = "w\<lparr>fs := f1, pbar_total := Some t\<rparr>"
  assume a: "apply_limit args dl = Inr (pre @ b # post, t) \<and>
    mkdir (fs w) ?d True True = Inr f1 \<and>
    batches_loop env (local_rank env) ?d 0 (new_accumulators env) pre ?w1 = (Inr acc, w2) \<and>
    (model env b = Inl e \<or>
     (\<exists>lg sm. model env b = Inr (lg, sm) \<and>
        (batch_metrics env acc b lg sm = Inl e \<or>
         (\<exists>bo acc'. batch_metrics env acc b lg sm = Inr (bo, acc') \<and>
            save_error env (?d @ [batch_name (pbar_n env (length pre))]) = Some e))))"
  from a have al: "apply_limit args dl = Inr (pre @ b # post, t)"
    by (rule conjunct1)
  from a have mk: "mkdir (fs w) ?d True True = Inr f1"
    by (rule conjunct1[OF conjunct2])
  from a have pl: "batches_loop env (local_rank env) ?d 0 (new_accumulators env) pre ?w1
                     = (Inr acc, w2)"
    by (rule conjunct1[OF conjunct2[OF conjunct2]])
  from a have ex: "model env b = Inl e \<or>
     (\<exists>lg sm. model env b = Inr (lg, sm) \<and>
        (batch_metrics env acc b lg sm = Inl e \<or>
         (\<exists>bo acc'. batch_metrics env acc b lg sm = Inr (bo, acc') \<and>
            save_error env (?d @ [batch_name (pbar_n env (length pre))]) = Some e)))"
    by (rule conjunct2[OF conjunct2[OF conjunct2]])
  from ex have bb: "batch_body env (local_rank env) ?d (length pre) acc b w2 = (Inl e, w2)"
    by (rule batch_body_raises)
  have "batches_loop env (local_rank env) ?d 0 (new_accumulators env) (pre @ b # post) ?w1
          = (Inl e, w2)"
    unfolding batches_loop_append pl by (simp add: bb)
  then show "eval_loop args env dl w = (Inl e, w2)"
    unfolding eval_loop_def al by (simp add: mk)
next
  let ?d = "output_dir args (local_rank env)"
  let ?w1 = "w\<lparr>fs := f1, pbar_total := Some t\<rparr>"
  assume a: "apply_limit args dl = Inr (bs, t) \<and>
    mkdir (fs w) ?d True True = Inr f1 \<and>
    batches_loop env (local_rank env) ?d 0 (new_accumulators env) bs ?w1 = (Inr acc, w2) \<and>
    save_stats env ?d acc w2 = (Inl e, w3)"
  from a have al: "apply_limit args dl = Inr (bs, t)"
    by (rule conjunct1)
  from a have mk: "mkdir (fs w) ?d True True = Inr f1"
    by (rule conjunct1[OF conjunct2])
  from a have pl: "batches_loop env (local_rank env) ?d 0 (new_accumulators env) bs ?w1
                     = (Inr acc, w2)"
    by (rule conjunct1[OF conjunct2[OF conjunct2]])
  from a have ss: "save_stats env ?d acc w2 = (Inl e, w3)"
    by (rule conjunct2[OF conjunct2[OF conjunct2]])
  show "eval_loop args env dl w = (Inl e, w3)"
    unfolding eval_loop_def al by (simp add: mk pl ss)
qed

theorem capture_released_exceptions_propagate_witness:
  "model (demo_env\<lparr>model := \<lambda>b. Inl (Raised ''forward'')\<rparr>) demo_batch = Inl (Raised ''forward'') \<and>
   record_residual_stream (demo_env\<lparr>model := \<lambda>b. Inl (Raised ''forward'')\<rparr>) demo_batch
     demo_world = (Inl (Raised ''forward''), demo_world) \<and>
   fst (eval_loop (demo_args None (Some [''out'']))
          (demo_env\<lparr>model := \<lambda>b. Inl (Raised ''forward'')\<rparr>) [demo_batch] demo_world)
     = Inl (Raised ''forward'') \<and>
   hooks (snd (eval_loop (demo_args None (Some [''out'']))
                 (demo_env\<lparr>model := \<lambda>b. Inl (Raised ''forward'')\<rparr>) [demo_batch] demo_world))
     = 0 \<and>
   saved (snd (eval_loop (demo_args None (Some [''out'']))
                 (demo_env\<lparr>model := \<lambda>b. Inl (Raised ''forward'')\<rparr>) [demo_batch] demo_world))
     = []"
proof -
  let ?env = "demo_env\<lparr>model := \<lambda>b. Inl (Raised ''forward'')\<rparr>"
  let ?args = "demo_args None (Some [''out''])"
  let ?f1 = "[[''out''] \<mapsto> Dir, [''out'', ''rank_0''] \<mapsto> Dir]
               :: path \<rightharpoonup> (tensor residual_stream list, (tensor3 \<times> bool) list) obj node"
  let ?w1 = "demo_world\<lparr>fs := ?f1, pbar_total := Some 1\<rparr>"
  let ?run = "eval_loop ?args ?env [demo_batch] demo_world"
  have lr: "local_rank ?env = 0" by (simp add: local_rank_def demo_env_def)
  have m: "model ?env demo_batch = Inl (Raised ''forward'')" by simp
  have al: "apply_limit ?args [demo_batch] = Inr ([] @ demo_batch # [], 1)"
    by (simp add: apply_limit_cases demo_args_def)
  have mk: "mkdir (fs demo_world) (output_dir ?args (local_rank ?env)) True True = Inr ?f1"
    unfolding lr by (simp add: output_dir_demo_out demo_world_def demo_mkdir_out)
  have pl: "batches_loop ?env (local_rank ?env) (output_dir ?args (local_rank ?env)) 0
      (new_accumulators ?env) [] ?w1 = (Inr (new_accumulators ?env), ?w1)"
    by simp
  note t = capture_released_exceptions_propagate[of ?env demo_batch demo_world ?args
      "[demo_batch]" "fst ?run" "snd ?run" "[]" "[]" 1 ?f1 "new_accumulators ?env" ?w1
      "Raised ''forward''"]
  from t have c1: "hooks (snd (record_residual_stream ?env demo_batch demo_world))
                      = hooks demo_world"
    by (rule conjunct1)
  from t have c2: "fst (record_residual_stream ?env demo_batch demo_world) = model ?env demo_batch"
    by (rule conjunct1[OF conjunct2])
  note c4 = t[THEN conjunct2, THEN conjunct2, THEN conjunct2, THEN conjunct1]
  have run: "?run = (Inl (Raised ''forward''), ?w1)"
    by (rule mp[OF c4]) (intro conjI disjI1 al mk pl m)
  have r: "record_residual_stream ?env demo_batch demo_world
             = (Inl (Raised ''forward''), demo_world)"
    using c1 c2 m by (simp add: record_residual_stream_def Let_def)
  from run have f: "fst ?run = Inl (Raised ''forward'')"
    and h: "hooks (snd ?run) = 0" and s: "saved (snd ?run) = []"
    by (simp_all add: demo_world_def)
  show ?thesis by (intro conjI) (rule m r f h s)+
qed

section \<open>Cross-entropy against the next token\<close>











end
